theory Spec2Isabelle
  imports Main "HOL-Library.Word"
begin

unbundle bit_operations_syntax

section \<open>Data model of hci\_layer.c\<close>

text \<open>
  The byte arrays of the C code are modelled as functions from an index to a byte.
  For the flexible array member \<open>data[]\<close> of a \<open>BT_HDR\<close> this is the memory that
  follows the header: the C code reads and writes it at computed offsets without
  consulting \<open>len\<close>, and so does the model.
\<close>

type_synonym bytes = "nat \<Rightarrow> 8 word"

text \<open>Function pointers and the opaque \<open>void *context\<close> are addresses.\<close>

type_synonym fn_ptr = nat
type_synonym void_ptr = nat

text \<open>
  \<open>serial_data_type_t\<close> is declared in hci\_hal.h. The tables of this file fix its values:
  \<open>preamble_sizes\<close> and \<open>outbound_event_types\<close> list command, ACL, SCO and event in
  this order and are indexed by \<open>type - 1\<close>, and the three inbound contexts are indexed by
  \<open>type - 2\<close>.
\<close>

datatype serial_data_type_t =
  DATA_TYPE_COMMAND | DATA_TYPE_ACL | DATA_TYPE_SCO | DATA_TYPE_EVENT

fun type_value :: "serial_data_type_t \<Rightarrow> int" where
  "type_value DATA_TYPE_COMMAND = 1"
| "type_value DATA_TYPE_ACL = 2"
| "type_value DATA_TYPE_SCO = 3"
| "type_value DATA_TYPE_EVENT = 4"

definition INBOUND_PACKET_TYPE_COUNT :: int where
  "INBOUND_PACKET_TYPE_COUNT = 3"

definition PACKET_TYPE_TO_INBOUND_INDEX :: "serial_data_type_t \<Rightarrow> int" where
  "PACKET_TYPE_TO_INBOUND_INDEX t = type_value t - 2"

definition PACKET_TYPE_TO_INDEX :: "serial_data_type_t \<Rightarrow> int" where
  "PACKET_TYPE_TO_INDEX t = type_value t - 1"

definition PREAMBLE_BUFFER_SIZE :: nat where
  "PREAMBLE_BUFFER_SIZE = 4"

definition HCI_COMMAND_COMPLETE_EVT :: "8 word" where
  "HCI_COMMAND_COMPLETE_EVT = 0x0E"

definition HCI_COMMAND_STATUS_EVT :: "8 word" where
  "HCI_COMMAND_STATUS_EVT = 0x0F"

text \<open>
  Modelled from the spec: the macros \<open>HCI_COMMAND_PREAMBLE_SIZE\<close>, \<open>HCI_ACL_PREAMBLE_SIZE\<close>,
  \<open>HCI_SCO_PREAMBLE_SIZE\<close> and \<open>HCI_EVENT_PREAMBLE_SIZE\<close> come from hcimsgs.h; the
  specification gives them as 3, 4, 3 and 2 bytes.
\<close>

definition preamble_sizes :: "8 word list" where
  "preamble_sizes = [3, 4, 3, 2]"

text \<open>
  The 16-bit message tags of the \<open>event\<close> field. Their numeric values are macros of a
  header outside this file; the code only stores and compares them. \<open>BT_HDR\<close> is declared
  outside this file too: the record has the fields that this file reads and writes.
\<close>

datatype msg_tag =
    MSG_HC_TO_STACK_HCI_ERR
  | MSG_HC_TO_STACK_HCI_ACL
  | MSG_HC_TO_STACK_HCI_SCO
  | MSG_HC_TO_STACK_HCI_EVT
  | MSG_STACK_TO_HC_HCI_CMD
  | MSG_STACK_TO_HC_HCI_ACL
  | MSG_STACK_TO_HC_HCI_SCO
  | MSG_OTHER nat

definition outbound_event_types :: "msg_tag list" where
  "outbound_event_types =
     [MSG_HC_TO_STACK_HCI_ERR, MSG_HC_TO_STACK_HCI_ACL,
      MSG_HC_TO_STACK_HCI_SCO, MSG_HC_TO_STACK_HCI_EVT]"

record BT_HDR =
  event :: msg_tag
  len :: "16 word"
  offset :: "16 word"
  layer_specific :: "16 word"
  data :: bytes

datatype receive_state_t = BRAND_NEW | PREAMBLE | BODY | IGNORE | FINISHED

text \<open>\<open>buffer\<close> is a pointer: \<open>None\<close> is \<open>NULL\<close>.\<close>

record packet_receive_data_t =
  state :: receive_state_t
  bytes_remaining :: "16 word"
  preamble :: bytes
  index :: "16 word"
  buffer :: "BT_HDR option"

text \<open>
  The two callbacks are function pointers: \<open>None\<close> is \<open>NULL\<close>. The field
  \<open>context_ptr\<close> is the \<open>context\<close> of the C struct.
\<close>

record waiting_command_t =
  opcode :: "16 word"
  complete_callback :: "fn_ptr option"
  status_callback :: "fn_ptr option"
  context_ptr :: void_ptr
  command :: BT_HDR

definition EPILOG_TIMEOUT_MS :: nat where
  "EPILOG_TIMEOUT_MS = 3000"

definition COMMAND_PENDING_TIMEOUT :: nat where
  "COMMAND_PENDING_TIMEOUT = 8000"

datatype alarm = epilog_alarm | command_response_alarm

datatype vendor_opcode =
    VENDOR_CHIP_POWER_CONTROL
  | VENDOR_CONFIGURE_FIRMWARE
  | VENDOR_CONFIGURE_SCO
  | VENDOR_DO_EPILOG

datatype power_state = BT_VND_PWR_OFF | BT_VND_PWR_ON

datatype task = event_preload_task | event_postload_task | event_epilog_task

text \<open>
  Calls into the imported modules (allocator, btsnoop, controller, HAL, fragmenter,
  low-power manager, vendor, alarms, thread, logging) and into the callbacks of the upper
  layer are recorded, in program order, as a list of effects.
\<close>

datatype effect =
    ALOGE string
  | ALOGW string
  | ALOGI string
  | ALOGD string
  | Alarm_new alarm
  | Alarm_set alarm nat string
  | Alarm_cancel alarm
  | Alarm_free alarm
  | Buffer_alloc nat
  | Buffer_free BT_HDR
  | Osi_free waiting_command_t
  | Call_complete_callback fn_ptr BT_HDR void_ptr
  | Call_status_callback fn_ptr "8 word" BT_HDR void_ptr
  | Wake_assert
  | Fragment_and_dispatch BT_HDR
  | Transmit_done
  | Btsnoop_capture BT_HDR bool
  | Reassemble_and_dispatch BT_HDR
  | Hal_packet_finished serial_data_type_t
  | Hal_init
  | Hal_open
  | Hal_close
  | Hci_inject_open
  | Hci_inject_close
  | Mutex_init
  | Mutex_destroy
  | Fixed_queue_new string
  | Fixed_queue_free_commands "waiting_command_t list"
  | Fixed_queue_free_packets "BT_HDR list"
  | Fixed_queue_register_dequeue string
  | List_new
  | List_free
  | Thread_new
  | Thread_post task
  | Thread_stop
  | Thread_join
  | Thread_free
  | Controller_init
  | Controller_begin_acl_size_fetch
  | Fragmenter_init
  | Fragmenter_cleanup
  | Low_power_init
  | Low_power_cleanup
  | Vendor_open
  | Vendor_close
  | Vendor_set_callback vendor_opcode
  | Vendor_send_command vendor_opcode power_state
  | Vendor_send_async_command vendor_opcode
  | Preload_finished bool
  | Enter_sco_config_callback bool

text \<open>
  The module-level variables. Pointers to the queues, the list and the alarms are
  represented by their contents; \<open>thread\<close> records whether the handle is non-NULL.
  The pending-response list holds pointers, so an element may be \<open>NULL\<close> (\<open>None\<close>).
  \<open>hal_rx\<close> is the HAL's receive buffer per type and \<open>alloc_calls\<close> counts the
  requests made to the buffer allocator; both belong to the imported modules.
\<close>

record hci_state =
  command_credits :: int
  firmware_is_configured :: bool
  has_shut_down :: bool
  thread :: bool
  command_queue :: "waiting_command_t list"
  packet_queue :: "BT_HDR list"
  commands_pending_response :: "waiting_command_t option list"
  incoming_packets :: "nat \<Rightarrow> packet_receive_data_t"
  hal_rx :: "serial_data_type_t \<Rightarrow> 8 word list"
  alloc_calls :: nat

text \<open>
  What the C code leaves undefined, or where it would block, is a value of the model.
\<close>

datatype error =
    Blocked_on_empty_queue
  | Null_dereference
  | Index_out_of_bounds

section \<open>Stream macros\<close>

text \<open>
  Modelled from the spec: the macros \<open>STREAM_TO_UINT8\<close> and \<open>STREAM_TO_UINT16\<close> come
  from bt\_types.h. They read one byte, and two bytes in little-endian order, at the stream
  position; the specification places the credits in one byte and the opcode in the two
  bytes after it, little-endian.
\<close>

definition STREAM_TO_UINT8 :: "bytes \<Rightarrow> nat \<Rightarrow> 8 word" where
  "STREAM_TO_UINT8 p i = p i"

definition STREAM_TO_UINT16 :: "bytes \<Rightarrow> nat \<Rightarrow> 16 word" where
  "STREAM_TO_UINT16 p i = ucast (p i) + push_bit 8 (ucast (p (i + 1)))"

definition RETRIEVE_ACL_LENGTH :: "bytes \<Rightarrow> 16 word" where
  "RETRIEVE_ACL_LENGTH p = push_bit 8 (ucast (p 3)) OR ucast (p 2)"

section \<open>Command correlator\<close>

definition restart_command_timeout_alarm :: "hci_state \<Rightarrow> effect list" where
  "restart_command_timeout_alarm s =
     (if commands_pending_response s = []
      then [Alarm_cancel command_response_alarm]
      else [Alarm_set command_response_alarm COMMAND_PENDING_TIMEOUT ''command_timed_out''])"

text \<open>
  Modelled from the spec: \<open>list_remove\<close> belongs to the list module, which is not part of
  this file; it unlinks the first node that holds the given element.
\<close>

definition list_remove :: "'a list \<Rightarrow> 'a \<Rightarrow> 'a list" where
  "list_remove l x = remove1 x l"

text \<open>
  The \<open>for\<close> loop of \<open>get_waiting_command\<close>: the first argument is the part of the list
  from the current node on, the second the whole list.
\<close>

fun get_waiting_command_from ::
  "waiting_command_t option list \<Rightarrow> waiting_command_t option list \<Rightarrow> 16 word
     \<Rightarrow> waiting_command_t option \<times> waiting_command_t option list" where
  "get_waiting_command_from [] l op = (None, l)"
| "get_waiting_command_from (None # nodes) l op = get_waiting_command_from nodes l op"
| "get_waiting_command_from (Some wait_entry # nodes) l op =
     (if opcode wait_entry \<noteq> op then get_waiting_command_from nodes l op
      else (Some wait_entry, list_remove l (Some wait_entry)))"

definition get_waiting_command ::
  "16 word \<Rightarrow> hci_state \<Rightarrow> waiting_command_t option \<times> hci_state" where
  "get_waiting_command op s =
     (case get_waiting_command_from (commands_pending_response s)
             (commands_pending_response s) op of
        (r, l) \<Rightarrow> (r, s\<lparr>commands_pending_response := l\<rparr>))"

section \<open>Event filter\<close>

text \<open>The code after the label \<open>intercepted\<close>.\<close>

definition intercepted ::
  "BT_HDR \<Rightarrow> 8 word \<Rightarrow> waiting_command_t option \<Rightarrow> hci_state \<Rightarrow> effect list" where
  "intercepted packet event_code wait_entry s =
     restart_command_timeout_alarm s @
     (case wait_entry of
        Some w \<Rightarrow>
          (if event_code = HCI_COMMAND_STATUS_EVT \<or> complete_callback w = None
           then [Buffer_free packet] else []) @
          (if event_code = HCI_COMMAND_COMPLETE_EVT \<or> status_callback w = None
           then [Buffer_free (command w)] else []) @
          [Osi_free w]
      | None \<Rightarrow> [Buffer_free packet])"

definition filter_incoming_event ::
  "BT_HDR \<Rightarrow> hci_state \<Rightarrow> bool \<times> effect list \<times> hci_state" where
  "filter_incoming_event packet s =
     (let stream = data packet;
          event_code = STREAM_TO_UINT8 stream 0
      in
        if event_code = HCI_COMMAND_COMPLETE_EVT then
          (let s1 = s\<lparr>command_credits := uint (STREAM_TO_UINT8 stream 2)\<rparr>;
               op = STREAM_TO_UINT16 stream 3
           in case get_waiting_command op s1 of
                (wait_entry, s2) \<Rightarrow>
                  (True,
                   (case wait_entry of
                      None \<Rightarrow> [ALOGW ''command complete event with no matching command'']
                    | Some w \<Rightarrow>
                        (case complete_callback w of
                           Some cb \<Rightarrow> [Call_complete_callback cb packet (context_ptr w)]
                         | None \<Rightarrow> [])) @
                   intercepted packet event_code wait_entry s2,
                   s2))
        else if event_code = HCI_COMMAND_STATUS_EVT then
          (let status = STREAM_TO_UINT8 stream 2;
               s1 = s\<lparr>command_credits := uint (STREAM_TO_UINT8 stream 3)\<rparr>;
               op = STREAM_TO_UINT16 stream 4
           in case get_waiting_command op s1 of
                (wait_entry, s2) \<Rightarrow>
                  (True,
                   (case wait_entry of
                      None \<Rightarrow> [ALOGW ''command status event with no matching command'']
                    | Some w \<Rightarrow>
                        (case status_callback w of
                           Some cb \<Rightarrow> [Call_status_callback cb status (command w) (context_ptr w)]
                         | None \<Rightarrow> [])) @
                   intercepted packet event_code wait_entry s2,
                   s2))
        else (False, [], s))"

section \<open>Outbound scheduler\<close>

text \<open>
  \<open>fixed_queue_dequeue\<close> waits on an empty queue; the model returns
  \<open>Blocked_on_empty_queue\<close> there. The handler is registered on \<open>command_queue\<close>.
\<close>

definition event_command_ready :: "hci_state \<Rightarrow> error + (effect list \<times> hci_state)" where
  "event_command_ready s =
     (if command_credits s > 0 then
        (case command_queue s of
           [] \<Rightarrow> Inl Blocked_on_empty_queue
         | wait_entry # queue \<Rightarrow>
             (let s1 = s\<lparr>command_queue := queue,
                         command_credits := command_credits s - 1,
                         commands_pending_response :=
                           commands_pending_response s @ [Some wait_entry]\<rparr>
              in Inr ([Wake_assert, Fragment_and_dispatch (command wait_entry), Transmit_done]
                        @ restart_command_timeout_alarm s1, s1)))
      else Inr ([], s))"

text \<open>The handler registered on \<open>packet_queue\<close>.\<close>

definition event_packet_ready :: "hci_state \<Rightarrow> error + (effect list \<times> hci_state)" where
  "event_packet_ready s =
     (case packet_queue s of
        [] \<Rightarrow> Inl Blocked_on_empty_queue
      | packet # queue \<Rightarrow>
          Inr ([Wake_assert, Fragment_and_dispatch packet, Transmit_done],
               s\<lparr>packet_queue := queue\<rparr>))"

text \<open>
  The first argument of \<open>transmit_command\<close> is the outcome of \<open>osi_calloc\<close>: whether the
  wait entry could be allocated.
\<close>

definition transmit_command ::
  "bool \<Rightarrow> BT_HDR \<Rightarrow> fn_ptr option \<Rightarrow> fn_ptr option \<Rightarrow> void_ptr \<Rightarrow> hci_state
     \<Rightarrow> effect list \<times> hci_state" where
  "transmit_command osi_calloc_ok cmd complete_cb status_cb ctx s =
     (if \<not> osi_calloc_ok then ([ALOGE ''couldn't allocate space for wait entry''], s)
      else
        (let wait_entry =
               \<lparr>opcode = STREAM_TO_UINT16 (data cmd) (unat (offset cmd)),
                complete_callback = complete_cb,
                status_callback = status_cb,
                context_ptr = ctx,
                command = cmd\<lparr>event := MSG_STACK_TO_HC_HCI_CMD\<rparr>\<rparr>
         in ([], s\<lparr>command_queue := command_queue s @ [wait_entry]\<rparr>)))"

definition transmit_downward ::
  "bool \<Rightarrow> msg_tag \<Rightarrow> BT_HDR \<Rightarrow> hci_state \<Rightarrow> effect list \<times> hci_state" where
  "transmit_downward osi_calloc_ok type packet s =
     (if type = MSG_STACK_TO_HC_HCI_CMD then
        (case transmit_command osi_calloc_ok packet None None 0 s of
           (eff, s1) \<Rightarrow> (eff @ [ALOGW ''legacy transmit of command''], s1))
      else ([], s\<lparr>packet_queue := packet_queue s @ [packet]\<rparr>))"

section \<open>Lifecycle\<close>

definition set_chip_power_on :: "bool \<Rightarrow> effect list" where
  "set_chip_power_on v =
     [ALOGD ''setting bluetooth chip power'',
      Vendor_send_command VENDOR_CHIP_POWER_CONTROL (if v then BT_VND_PWR_ON else BT_VND_PWR_OFF)]"

text \<open>
  After \<open>shut_down\<close> the queues and the list are freed; the model leaves them empty.
\<close>

definition shut_down :: "hci_state \<Rightarrow> effect list \<times> hci_state" where
  "shut_down s =
     (if has_shut_down s then ([ALOGW ''already happened for this session''], s)
      else
        ([ALOGI ''shut_down'', Hci_inject_close] @
         (if thread s then
            (if firmware_is_configured s
             then [Alarm_set epilog_alarm EPILOG_TIMEOUT_MS ''epilog_wait_timer_expired'',
                   Thread_post event_epilog_task]
             else [Thread_stop]) @ [Thread_join]
          else []) @
         [Fixed_queue_free_commands (command_queue s),
          Fixed_queue_free_packets (packet_queue s),
          List_free,
          Mutex_destroy,
          Fragmenter_cleanup,
          Alarm_free epilog_alarm,
          Alarm_free command_response_alarm,
          Low_power_cleanup,
          Hal_close] @
         set_chip_power_on False @
         [Vendor_close, Thread_free],
         s\<lparr>command_queue := [],
           packet_queue := [],
           commands_pending_response := [],
           thread := False,
           firmware_is_configured := False,
           has_shut_down := True\<rparr>))"

text \<open>
  The outcomes of the creations in \<open>start_up\<close>: each flag tells whether the call
  returned a non-NULL handle.
\<close>

record start_up_results =
  epilog_alarm_ok :: bool
  command_response_alarm_ok :: bool
  command_queue_ok :: bool
  packet_queue_ok :: bool
  thread_ok :: bool
  list_ok :: bool

definition zeroed_packet_receive_data :: packet_receive_data_t where
  "zeroed_packet_receive_data =
     \<lparr>state = BRAND_NEW, bytes_remaining = 0, preamble = (\<lambda>_. 0), index = 0, buffer = None\<rparr>"

text \<open>The label \<open>error\<close> of \<open>start_up\<close>.\<close>

definition start_up_error :: "effect list \<Rightarrow> hci_state \<Rightarrow> bool \<times> effect list \<times> hci_state" where
  "start_up_error eff s = (case shut_down s of (eff2, s2) \<Rightarrow> (False, eff @ eff2, s2))"

definition start_up :: "start_up_results \<Rightarrow> hci_state \<Rightarrow> bool \<times> effect list \<times> hci_state" where
  "start_up r s =
     (let s0 = s\<lparr>command_credits := 1, firmware_is_configured := False, has_shut_down := False\<rparr>;
          e0 = [ALOGI ''start_up'', Mutex_init, Alarm_new epilog_alarm]
      in
      if \<not> epilog_alarm_ok r
      then start_up_error (e0 @ [ALOGE ''unable to create epilog alarm'']) s0
      else let e1 = e0 @ [Alarm_new command_response_alarm] in
      if \<not> command_response_alarm_ok r
      then start_up_error (e1 @ [ALOGE ''unable to create command response alarm'']) s0
      else let e2 = e1 @ [Fixed_queue_new ''command_queue''];
               s2 = s0\<lparr>command_queue := []\<rparr> in
      if \<not> command_queue_ok r
      then start_up_error (e2 @ [ALOGE ''unable to create pending command queue'']) s2
      else let e3 = e2 @ [Fixed_queue_new ''packet_queue''];
               s3 = s2\<lparr>packet_queue := []\<rparr> in
      if \<not> packet_queue_ok r
      then start_up_error (e3 @ [ALOGE ''unable to create pending packet queue'']) s3
      else let e4 = e3 @ [Thread_new];
               s4 = s3\<lparr>thread := thread_ok r\<rparr> in
      if \<not> thread_ok r
      then start_up_error (e4 @ [ALOGE ''unable to create thread'']) s4
      else let e5 = e4 @ [List_new];
               s5 = s4\<lparr>commands_pending_response := []\<rparr> in
      if \<not> list_ok r
      then start_up_error (e5 @ [ALOGE ''unable to create list for commands pending response'']) s5
      else
        (True,
         e5 @ [Controller_init, Fragmenter_init,
               Fixed_queue_register_dequeue ''command_queue'',
               Fixed_queue_register_dequeue ''packet_queue'',
               Vendor_open, Hal_init, Low_power_init,
               Vendor_set_callback VENDOR_CONFIGURE_FIRMWARE,
               Vendor_set_callback VENDOR_CONFIGURE_SCO,
               Vendor_set_callback VENDOR_DO_EPILOG,
               Hci_inject_open],
         s5\<lparr>incoming_packets := (\<lambda>_. zeroed_packet_receive_data)\<rparr>))"

definition do_preload :: "effect list" where
  "do_preload = [ALOGD ''posting preload work item'', Thread_post event_preload_task]"

definition do_postload :: "effect list" where
  "do_postload = [ALOGD ''posting postload work item'', Thread_post event_postload_task]"

text \<open>
  \<open>sco_config_callback\<close> ignores its argument; the model records the call and the
  argument before the body runs.
\<close>

definition sco_config_callback :: "bool \<Rightarrow> effect list" where
  "sco_config_callback success =
     [Enter_sco_config_callback success, Controller_begin_acl_size_fetch]"

definition firmware_config_callback :: "bool \<Rightarrow> hci_state \<Rightarrow> effect list \<times> hci_state" where
  "firmware_config_callback success s =
     ([Preload_finished True], s\<lparr>firmware_is_configured := True\<rparr>)"

definition epilog_finished_callback :: "bool \<Rightarrow> effect list" where
  "epilog_finished_callback success = [ALOGI ''epilog_finished_callback'', Thread_stop]"

definition epilog_wait_timer_expired :: "effect list" where
  "epilog_wait_timer_expired = [ALOGI ''epilog_wait_timer_expired'', Thread_stop]"

definition event_preload :: "effect list" where
  "event_preload =
     [ALOGI ''event_preload'', Hal_open, Vendor_send_async_command VENDOR_CONFIGURE_FIRMWARE]"

text \<open>
  The argument of \<open>event_postload\<close> is the \<open>int\<close> that the vendor module's
  \<open>send_async_command\<close> returns for \<open>VENDOR_CONFIGURE_SCO\<close>.
\<close>

definition event_postload :: "int \<Rightarrow> effect list" where
  "event_postload send_async_command_result =
     [ALOGI ''event_postload'', Vendor_send_async_command VENDOR_CONFIGURE_SCO] @
     (if send_async_command_result = - 1 then sco_config_callback False else [])"

definition event_epilog :: "effect list" where
  "event_epilog = [Vendor_send_async_command VENDOR_DO_EPILOG]"

section \<open>Packet reassembler\<close>

text \<open>
  What \<open>hal_says_data_ready\<close> needs from outside this file: the macro \<open>BT_HDR_SIZE\<close>
  (the size of the packet header), and the buffer allocator. \<open>buffer_allocator_alloc k n\<close>
  is the result of the \<open>k\<close>-th request, for \<open>n\<close> bytes: \<open>None\<close> when the allocator
  returns \<open>NULL\<close>, otherwise the buffer in whatever condition the allocator hands it out.
\<close>

record platform =
  BT_HDR_SIZE :: nat
  buffer_allocator_alloc :: "nat \<Rightarrow> nat \<Rightarrow> BT_HDR option"

text \<open>
  Modelled from the spec: the HAL's \<open>read_data\<close> with \<open>block = false\<close> takes up to \<open>n\<close>
  of the bytes that are buffered for the type, possibly none. The result is the bytes read
  and the bytes left in the HAL.
\<close>

definition hal_read_data :: "nat \<Rightarrow> 8 word list \<Rightarrow> 8 word list \<times> 8 word list" where
  "hal_read_data n rx = (take n rx, drop n rx)"

text \<open>Storing the bytes that \<open>read_data\<close> returns at \<open>p + i\<close>.\<close>

definition store_bytes :: "bytes \<Rightarrow> nat \<Rightarrow> 8 word list \<Rightarrow> bytes" where
  "store_bytes p i bs = (\<lambda>j. if i \<le> j \<and> j < i + length bs then bs ! (j - i) else p j)"

definition memcpy :: "bytes \<Rightarrow> bytes \<Rightarrow> nat \<Rightarrow> bytes" where
  "memcpy dst src n = (\<lambda>j. if j < n then src j else dst j)"

text \<open>
  The local state of the \<open>while\<close> loop: the bytes still in the HAL for this type, the
  context \<open>*incoming\<close>, and the module state.
\<close>

type_synonym receive_loop_state = "8 word list \<times> packet_receive_data_t \<times> hci_state"

definition case_BRAND_NEW :: "serial_data_type_t \<Rightarrow> packet_receive_data_t \<Rightarrow> packet_receive_data_t" where
  "case_BRAND_NEW type incoming =
     incoming\<lparr>bytes_remaining := ucast (preamble_sizes ! nat (PACKET_TYPE_TO_INDEX type)),
              preamble := (\<lambda>_. 0),
              index := 0,
              state := PREAMBLE\<rparr>"

text \<open>
  A store past the end of \<open>preamble[PREAMBLE_BUFFER_SIZE]\<close> is \<open>Index_out_of_bounds\<close>.
\<close>

definition case_PREAMBLE ::
  "platform \<Rightarrow> serial_data_type_t \<Rightarrow> 8 word \<Rightarrow> receive_loop_state
     \<Rightarrow> error + (effect list \<times> receive_loop_state)" where
  "case_PREAMBLE pf type byte st =
     (case st of (rx, incoming, s) \<Rightarrow>
        if \<not> unat (index incoming) < PREAMBLE_BUFFER_SIZE then Inl Index_out_of_bounds
        else
          (let inc1 = incoming\<lparr>preamble := (preamble incoming)(unat (index incoming) := byte),
                               index := index incoming + 1,
                               bytes_remaining := bytes_remaining incoming - 1\<rparr>
           in
             if bytes_remaining inc1 = 0 then
               (let inc2 = inc1\<lparr>bytes_remaining :=
                                  (if type = DATA_TYPE_ACL
                                   then RETRIEVE_ACL_LENGTH (preamble inc1) else ucast byte)\<rparr>;
                    buffer_size = BT_HDR_SIZE pf + unat (index inc2) + unat (bytes_remaining inc2);
                    s1 = s\<lparr>alloc_calls := Suc (alloc_calls s)\<rparr>
                in
                  (case buffer_allocator_alloc pf (alloc_calls s) buffer_size of
                     None \<Rightarrow>
                       Inr ([Buffer_alloc buffer_size,
                             ALOGE ''error getting buffer for incoming packet''],
                            rx,
                            inc2\<lparr>buffer := None,
                                 state := (if bytes_remaining inc2 = 0 then BRAND_NEW else IGNORE)\<rparr>,
                            s1)
                   | Some b \<Rightarrow>
                       Inr ([Buffer_alloc buffer_size],
                            rx,
                            inc2\<lparr>buffer :=
                                   Some (b\<lparr>offset := 0,
                                           layer_specific := 0,
                                           event := outbound_event_types ! nat (PACKET_TYPE_TO_INDEX type),
                                           data := memcpy (data b) (preamble inc2) (unat (index inc2))\<rparr>),
                                 state := (if bytes_remaining inc2 > 0 then BODY else FINISHED)\<rparr>,
                            s1)))
             else Inr ([], rx, inc1, s)))"

definition case_BODY ::
  "8 word \<Rightarrow> receive_loop_state \<Rightarrow> error + (effect list \<times> receive_loop_state)" where
  "case_BODY byte st =
     (case st of (rx, incoming, s) \<Rightarrow>
        (case buffer incoming of
           None \<Rightarrow> Inl Null_dereference
         | Some b \<Rightarrow>
             (let b1 = b\<lparr>data := (data b)(unat (index incoming) := byte)\<rparr>;
                  index1 = index incoming + 1;
                  remaining1 = bytes_remaining incoming - 1
              in case hal_read_data (unat remaining1) rx of
                   (chunk, rx') \<Rightarrow>
                     (let bytes_read = length chunk;
                          b2 = b1\<lparr>data := store_bytes (data b1) (unat index1) chunk\<rparr>;
                          index2 = index1 + of_nat bytes_read;
                          remaining2 = remaining1 - of_nat bytes_read
                      in Inr ([], rx',
                              incoming\<lparr>buffer := Some b2,
                                       index := index2,
                                       bytes_remaining := remaining2,
                                       state := (if remaining2 = 0 then FINISHED
                                                 else state incoming)\<rparr>,
                              s)))))"

definition case_IGNORE :: "packet_receive_data_t \<Rightarrow> packet_receive_data_t" where
  "case_IGNORE incoming =
     (let inc1 = incoming\<lparr>bytes_remaining := bytes_remaining incoming - 1\<rparr>
      in inc1\<lparr>state := (if bytes_remaining inc1 = 0 then BRAND_NEW else state inc1)\<rparr>)"

text \<open>The \<open>switch\<close> statement, with the fall-through from \<open>BRAND_NEW\<close> to \<open>PREAMBLE\<close>.\<close>

definition switch_state ::
  "platform \<Rightarrow> serial_data_type_t \<Rightarrow> 8 word \<Rightarrow> receive_loop_state
     \<Rightarrow> error + (effect list \<times> receive_loop_state)" where
  "switch_state pf type byte st =
     (case st of (rx, incoming, s) \<Rightarrow>
        (case state incoming of
           BRAND_NEW \<Rightarrow> case_PREAMBLE pf type byte (rx, case_BRAND_NEW type incoming, s)
         | PREAMBLE \<Rightarrow> case_PREAMBLE pf type byte (rx, incoming, s)
         | BODY \<Rightarrow> case_BODY byte (rx, incoming, s)
         | IGNORE \<Rightarrow> Inr ([], rx, case_IGNORE incoming, s)
         | FINISHED \<Rightarrow>
             Inr ([ALOGE ''the state machine should not have been left in the finished state''],
                  rx, incoming, s)))"

text \<open>The block guarded by \<open>incoming->state == FINISHED\<close>, which ends with \<open>return\<close>.\<close>

definition finished_block ::
  "serial_data_type_t \<Rightarrow> receive_loop_state \<Rightarrow> error + (effect list \<times> receive_loop_state)" where
  "finished_block type st =
     (case st of (rx, incoming, s) \<Rightarrow>
        (case buffer incoming of
           None \<Rightarrow> Inl Null_dereference
         | Some b \<Rightarrow>
             (let b1 = b\<lparr>len := index incoming\<rparr>;
                  inc1 = incoming\<lparr>buffer := None, state := BRAND_NEW\<rparr>
              in
                if type \<noteq> DATA_TYPE_EVENT then
                  Inr ([Btsnoop_capture b1 True, Reassemble_and_dispatch b1,
                        Hal_packet_finished type], rx, inc1, s)
                else
                  (case filter_incoming_event b1 s of
                     (swallowed, eff, s1) \<Rightarrow>
                       Inr ([Btsnoop_capture b1 True] @ eff @
                            (if \<not> swallowed then [Reassemble_and_dispatch b1] else []) @
                            [Hal_packet_finished type], rx, inc1, s1)))))"

text \<open>
  The \<open>while\<close> loop: each iteration reads one byte with \<open>read_data\<close>, and the loop ends
  when the HAL has none.
\<close>

function hal_says_data_ready_loop ::
  "platform \<Rightarrow> serial_data_type_t \<Rightarrow> receive_loop_state
     \<Rightarrow> error + (effect list \<times> receive_loop_state)" where
  "hal_says_data_ready_loop pf type ([], incoming, s) = Inr ([], [], incoming, s)"
| "hal_says_data_ready_loop pf type (byte # rx, incoming, s) =
     (case switch_state pf type byte (rx, incoming, s) of
        Inl e \<Rightarrow> Inl e
      | Inr (eff, rx1, inc1, s1) \<Rightarrow>
          if state inc1 = FINISHED then
            (case finished_block type (rx1, inc1, s1) of
               Inl e \<Rightarrow> Inl e
             | Inr (eff2, st2) \<Rightarrow> Inr (eff @ eff2, st2))
          else
            (case hal_says_data_ready_loop pf type (rx1, inc1, s1) of
               Inl e \<Rightarrow> Inl e
             | Inr (eff2, st2) \<Rightarrow> Inr (eff @ eff2, st2)))"
  by pat_completeness auto
termination
  by (relation "measure (\<lambda>(pf, type, rx, incoming, s). length rx)")
     (auto simp: switch_state_def case_PREAMBLE_def case_BODY_def hal_read_data_def Let_def
           split: receive_state_t.splits if_splits option.splits)

text \<open>
  \<open>incoming\<close> points into \<open>incoming_packets\<close>; an index outside the array is
  \<open>Index_out_of_bounds\<close>. The context and the HAL's buffer are written back at the end.
\<close>

definition hal_says_data_ready ::
  "platform \<Rightarrow> serial_data_type_t \<Rightarrow> hci_state \<Rightarrow> error + (effect list \<times> hci_state)" where
  "hal_says_data_ready pf type s =
     (let i = PACKET_TYPE_TO_INBOUND_INDEX type in
      if i < 0 \<or> INBOUND_PACKET_TYPE_COUNT \<le> i then Inl Index_out_of_bounds
      else
        (case hal_says_data_ready_loop pf type (hal_rx s type, incoming_packets s (nat i), s) of
           Inl e \<Rightarrow> Inl e
         | Inr (eff, rx1, inc1, s1) \<Rightarrow>
             Inr (eff, s1\<lparr>incoming_packets := (incoming_packets s1)(nat i := inc1),
                          hal_rx := (hal_rx s1)(type := rx1)\<rparr>)))"

section \<open>Runs of the module\<close>

text \<open>
  The entry points that touch the module state, and the arrival of bytes in the HAL, as
  operations; \<open>run\<close> performs a list of them and stops at the first one that does not
  return.
\<close>

datatype operation =
    Op_start_up start_up_results
  | Op_shut_down
  | Op_transmit_command bool BT_HDR "fn_ptr option" "fn_ptr option" void_ptr
  | Op_transmit_downward bool msg_tag BT_HDR
  | Op_event_command_ready
  | Op_event_packet_ready
  | Op_firmware_config_callback bool
  | Op_hal_receives serial_data_type_t "8 word list"
  | Op_hal_says_data_ready serial_data_type_t

fun step :: "platform \<Rightarrow> operation \<Rightarrow> hci_state \<Rightarrow> error + (effect list \<times> hci_state)" where
  "step pf (Op_start_up r) s = Inr (snd (start_up r s))"
| "step pf Op_shut_down s = Inr (shut_down s)"
| "step pf (Op_transmit_command ok cmd ccb scb ctx) s = Inr (transmit_command ok cmd ccb scb ctx s)"
| "step pf (Op_transmit_downward ok type packet) s = Inr (transmit_downward ok type packet s)"
| "step pf Op_event_command_ready s = event_command_ready s"
| "step pf Op_event_packet_ready s = event_packet_ready s"
| "step pf (Op_firmware_config_callback success) s = Inr (firmware_config_callback success s)"
| "step pf (Op_hal_receives type bs) s = Inr ([], s\<lparr>hal_rx := (hal_rx s)(type := hal_rx s type @ bs)\<rparr>)"
| "step pf (Op_hal_says_data_ready type) s = hal_says_data_ready pf type s"

fun run :: "platform \<Rightarrow> operation list \<Rightarrow> hci_state \<Rightarrow> error + (effect list \<times> hci_state)" where
  "run pf [] s = Inr ([], s)"
| "run pf (op # ops) s =
     (case step pf op s of
        Inl e \<Rightarrow> Inl e
      | Inr (eff, s1) \<Rightarrow>
          (case run pf ops s1 of
             Inl e \<Rightarrow> Inl e
           | Inr (eff2, s2) \<Rightarrow> Inr (eff @ eff2, s2)))"

text \<open>The releases of memory among the effects of a call.\<close>

fun is_disposal :: "effect \<Rightarrow> bool" where
  "is_disposal (Buffer_free b) = True"
| "is_disposal (Osi_free w) = True"
| "is_disposal e = False"

definition disposals :: "effect list \<Rightarrow> effect list" where
  "disposals eff = filter is_disposal eff"

text \<open>The effects by which a finished packet leaves \<open>hal_says_data_ready\<close>.\<close>

fun is_capture :: "effect \<Rightarrow> bool" where
  "is_capture (Btsnoop_capture b incoming) = True"
| "is_capture e = False"

fun is_reassemble :: "effect \<Rightarrow> bool" where
  "is_reassemble (Reassemble_and_dispatch b) = True"
| "is_reassemble e = False"

fun is_packet_finished :: "effect \<Rightarrow> bool" where
  "is_packet_finished (Hal_packet_finished t) = True"
| "is_packet_finished e = False"

section \<open>Concrete values\<close>

text \<open>
  The state given by the static initialisers of the file: one command credit, every
  other variable zero.
\<close>

definition initial_state :: hci_state where
  "initial_state =
     \<lparr>command_credits = 1,
      firmware_is_configured = False,
      has_shut_down = False,
      thread = False,
      command_queue = [],
      packet_queue = [],
      commands_pending_response = [],
      incoming_packets = (\<lambda>_. zeroed_packet_receive_data),
      hal_rx = (\<lambda>_. []),
      alloc_calls = 0\<rparr>"

text \<open>A packet whose memory starts with the given bytes, and a wait entry for a command.\<close>

definition bytes_of :: "8 word list \<Rightarrow> bytes" where
  "bytes_of bs = (\<lambda>i. if i < length bs then bs ! i else 0)"

definition packet_of :: "msg_tag \<Rightarrow> 8 word list \<Rightarrow> BT_HDR" where
  "packet_of tag bs =
     \<lparr>event = tag, len = of_nat (length bs), offset = 0, layer_specific = 0, data = bytes_of bs\<rparr>"

definition wait_entry_of ::
  "8 word list \<Rightarrow> fn_ptr option \<Rightarrow> fn_ptr option \<Rightarrow> waiting_command_t" where
  "wait_entry_of bs complete_cb status_cb =
     \<lparr>opcode = STREAM_TO_UINT16 (bytes_of bs) 0,
      complete_callback = complete_cb,
      status_callback = status_cb,
      context_ptr = 0,
      command = packet_of MSG_STACK_TO_HC_HCI_CMD bs\<rparr>"

text \<open>
  A platform with an 8-byte packet header whose allocator succeeds unless the request
  number is in the given list, and hands out zeroed buffers.
\<close>

definition platform_failing :: "nat list \<Rightarrow> platform" where
  "platform_failing ks =
     \<lparr>BT_HDR_SIZE = 8,
      buffer_allocator_alloc =
        (\<lambda>k n. if k \<in> set ks then None else Some (packet_of (MSG_OTHER 0) []))\<rparr>"

text \<open>
  A state in which the reset command 0x0C03 awaits its response, no credit is left, and
  the HAL holds the command-complete event for it followed by one more byte.
\<close>

definition event_pending_state :: hci_state where
  "event_pending_state =
     initial_state\<lparr>command_credits := 0,
       commands_pending_response := [Some (wait_entry_of [0x03, 0x0C, 0x00] (Some 7) None)],
       hal_rx := (\<lambda>_. [])(DATA_TYPE_EVENT := [0x0E, 0x04, 0x01, 0x03, 0x0C, 0x00, 0x0F])\<rparr>"

text \<open>Every creation in \<open>start_up\<close> succeeds.\<close>

definition all_created :: start_up_results where
  "all_created =
     \<lparr>epilog_alarm_ok = True, command_response_alarm_ok = True, command_queue_ok = True,
      packet_queue_ok = True, thread_ok = True, list_ok = True\<rparr>"

section \<open>Notions used in the statements\<close>

text \<open>No packet leaves among these effects: no capture, no dispatch, no notification.\<close>

definition quiet :: "effect list \<Rightarrow> bool" where
  "quiet eff \<longleftrightarrow>
     filter is_capture eff = [] \<and> filter is_reassemble eff = [] \<and>
     filter is_packet_finished eff = []"

text \<open>
  The effects \<open>eff\<close> of a call of \<open>hal_says_data_ready\<close> in state \<open>s\<close> hand over one
  packet \<open>b\<close>, as the last thing the call does: after effects that hand over nothing,
  \<open>b\<close> is captured, then filtered (for an event) and dispatched unless the filter swallowed
  it, then the HAL is notified. The context \<open>inc'\<close> that the call leaves behind is
  \<open>BRAND_NEW\<close>, owns no buffer, and its \<open>index\<close> is the \<open>len\<close> of \<open>b\<close>.
\<close>

definition emits_one ::
  "serial_data_type_t \<Rightarrow> hci_state \<Rightarrow> effect list \<Rightarrow> packet_receive_data_t \<Rightarrow> bool" where
  "emits_one type s eff inc' \<longleftrightarrow>
     (\<exists>pre b mid.
        eff = pre @ Btsnoop_capture b True # mid @ [Hal_packet_finished type] \<and> quiet pre \<and>
        len b = index inc' \<and> state inc' = BRAND_NEW \<and> buffer inc' = None \<and>
        mid =
          (if type = DATA_TYPE_EVENT
           then fst (snd (filter_incoming_event b s)) @
                (if fst (filter_incoming_event b s) then [] else [Reassemble_and_dispatch b])
           else [Reassemble_and_dispatch b]))"

text \<open>A result of the loop, with the HAL's buffers replaced in the module state.\<close>

definition with_hal_rx ::
  "(serial_data_type_t \<Rightarrow> 8 word list) \<Rightarrow> error + (effect list \<times> receive_loop_state)
     \<Rightarrow> error + (effect list \<times> receive_loop_state)" where
  "with_hal_rx h r =
     (case r of Inl e \<Rightarrow> Inl e
      | Inr (eff, rx, incoming, s) \<Rightarrow> Inr (eff, rx, incoming, s\<lparr>hal_rx := h\<rparr>))"

text \<open>
  The contexts that the state machine leaves behind between two bytes: in \<open>PREAMBLE\<close>
  some bytes are missing and the preamble fits its array, in \<open>BODY\<close> the context owns a
  buffer, and \<open>FINISHED\<close> does not occur.
\<close>

definition well_formed :: "packet_receive_data_t \<Rightarrow> bool" where
  "well_formed incoming \<longleftrightarrow>
     (case state incoming of
        BRAND_NEW \<Rightarrow> True
      | PREAMBLE \<Rightarrow>
          bytes_remaining incoming \<noteq> 0 \<and>
          unat (index incoming) + unat (bytes_remaining incoming) \<le> PREAMBLE_BUFFER_SIZE
      | BODY \<Rightarrow> buffer incoming \<noteq> None
      | IGNORE \<Rightarrow> True
      | FINISHED \<Rightarrow> False)"

text \<open>The tag of a packet that comes in from the controller, by type.\<close>

definition inbound_tag :: "serial_data_type_t \<Rightarrow> msg_tag" where
  "inbound_tag type =
     (case type of
        DATA_TYPE_COMMAND \<Rightarrow> MSG_HC_TO_STACK_HCI_ERR
      | DATA_TYPE_ACL \<Rightarrow> MSG_HC_TO_STACK_HCI_ACL
      | DATA_TYPE_SCO \<Rightarrow> MSG_HC_TO_STACK_HCI_SCO
      | DATA_TYPE_EVENT \<Rightarrow> MSG_HC_TO_STACK_HCI_EVT)"

text \<open>
  What the case \<open>PREAMBLE\<close> does with a byte that is not the last of the preamble, and
  the context after the bytes of a preamble but the last, starting from \<open>BRAND_NEW\<close>.
\<close>

definition preamble_byte :: "8 word \<Rightarrow> packet_receive_data_t \<Rightarrow> packet_receive_data_t" where
  "preamble_byte byte incoming =
     incoming\<lparr>preamble := (preamble incoming)(unat (index incoming) := byte),
              index := index incoming + 1,
              bytes_remaining := bytes_remaining incoming - 1\<rparr>"

definition preamble_front ::
  "serial_data_type_t \<Rightarrow> 8 word list \<Rightarrow> packet_receive_data_t \<Rightarrow> packet_receive_data_t" where
  "preamble_front type bs incoming = fold preamble_byte bs (case_BRAND_NEW type incoming)"

text \<open>The body length that the case \<open>PREAMBLE\<close> computes when \<open>byte\<close> ends the preamble.\<close>

definition body_length_of ::
  "serial_data_type_t \<Rightarrow> 8 word \<Rightarrow> packet_receive_data_t \<Rightarrow> 16 word" where
  "body_length_of type byte incoming =
     (if type = DATA_TYPE_ACL
      then RETRIEVE_ACL_LENGTH ((preamble incoming)(unat (index incoming) := byte))
      else ucast byte)"

text \<open>
  The preamble \<open>ps\<close> is read from \<open>BRAND_NEW\<close> and the buffer is allocated: the bytes
  but the last leave no effect, and the last byte allocates and initialises the buffer.
\<close>

definition preamble_done ::
  "platform \<Rightarrow> serial_data_type_t \<Rightarrow> 8 word list \<Rightarrow> nat \<Rightarrow> 8 word list
    \<Rightarrow> packet_receive_data_t \<Rightarrow> hci_state \<Rightarrow> bool" where
  "preamble_done pf type ps body rx incoming s \<longleftrightarrow>
     hal_says_data_ready_loop pf type (butlast ps, incoming, s) =
       Inr ([], [], preamble_front type (butlast ps) incoming, s) \<and>
     (\<exists>inc1 b1.
        switch_state pf type (last ps) (rx, preamble_front type (butlast ps) incoming, s) =
          Inr ([Buffer_alloc (BT_HDR_SIZE pf + length ps + body)], rx, inc1,
               s\<lparr>alloc_calls := Suc (alloc_calls s)\<rparr>) \<and>
        unat (bytes_remaining inc1) = body \<and> unat (index inc1) = length ps \<and>
        state inc1 = (if 0 < body then BODY else FINISHED) \<and>
        buffer inc1 = Some b1 \<and> offset b1 = 0 \<and> event b1 = inbound_tag type \<and>
        (\<forall>i<length ps. data b1 i = ps ! i))"

text \<open>
  The allocation for the preamble \<open>ps\<close> fails, where \<open>rest\<close> is what is left of \<open>ps\<close>
  to read in the context \<open>incoming\<close>: the bytes of \<open>body\<close> are then dropped one by one,
  and the bytes after them are read from \<open>BRAND_NEW\<close>.
\<close>

definition alloc_failed ::
  "platform \<Rightarrow> serial_data_type_t \<Rightarrow> 8 word list \<Rightarrow> 8 word list \<Rightarrow> 8 word list
     \<Rightarrow> packet_receive_data_t \<Rightarrow> hci_state \<Rightarrow> bool" where
  "alloc_failed pf type ps rest body incoming s \<longleftrightarrow>
     (\<exists>inc1.
        hal_says_data_ready_loop pf type (rest, incoming, s) =
          Inr ([Buffer_alloc (BT_HDR_SIZE pf + length ps + length body),
                ALOGE ''error getting buffer for incoming packet''],
               [], inc1, s\<lparr>alloc_calls := Suc (alloc_calls s)\<rparr>) \<and>
        buffer inc1 = None \<and> unat (bytes_remaining inc1) = length body \<and>
        state inc1 = (if body = [] then BRAND_NEW else IGNORE) \<and>
        (\<forall>k<length body.
           hal_says_data_ready_loop pf type (rest @ take k body, incoming, s) =
             Inr ([Buffer_alloc (BT_HDR_SIZE pf + length ps + length body),
                   ALOGE ''error getting buffer for incoming packet''],
                  [], inc1\<lparr>bytes_remaining := bytes_remaining inc1 - of_nat k\<rparr>,
                  s\<lparr>alloc_calls := Suc (alloc_calls s)\<rparr>)) \<and>
        (\<forall>extra.
           hal_says_data_ready_loop pf type (rest @ body @ extra, incoming, s) =
             (case hal_says_data_ready_loop pf type
                     (extra, inc1\<lparr>bytes_remaining := 0, state := BRAND_NEW\<rparr>,
                      s\<lparr>alloc_calls := Suc (alloc_calls s)\<rparr>) of
                Inl e \<Rightarrow> Inl e
              | Inr (eff, st) \<Rightarrow>
                  Inr ([Buffer_alloc (BT_HDR_SIZE pf + length ps + length body),
                        ALOGE ''error getting buffer for incoming packet''] @ eff, st))))"

text \<open>
  Among the effects a command-complete or command-status event was captured, and \<open>c\<close> is
  the value of its credit field.
\<close>

definition credits_replaced :: "effect list \<Rightarrow> int \<Rightarrow> bool" where
  "credits_replaced eff c \<longleftrightarrow>
     (\<exists>b. Btsnoop_capture b True \<in> set eff \<and>
          (data b 0 = 0x0E \<and> c = uint (data b 2) \<or> data b 0 = 0x0F \<and> c = uint (data b 3)))"

text \<open>Effects that come before the effects of a result.\<close>

definition prepend_effects ::
  "effect list \<Rightarrow> error + (effect list \<times> 'a) \<Rightarrow> error + (effect list \<times> 'a)" where
  "prepend_effects e r = (case r of Inl x \<Rightarrow> Inl x | Inr (eff, st) \<Rightarrow> Inr (e @ eff, st))"

text \<open>
  The module state in which the context of an inbound type is \<open>incoming\<close> and the HAL holds
  the bytes \<open>rx\<close> for the type: what \<open>hal_says_data_ready\<close> leaves behind when it returns.
\<close>

definition store_context ::
  "serial_data_type_t \<Rightarrow> packet_receive_data_t \<Rightarrow> 8 word list \<Rightarrow> hci_state \<Rightarrow> hci_state" where
  "store_context type incoming rx s =
     s\<lparr>incoming_packets :=
         (incoming_packets s)(nat (PACKET_TYPE_TO_INBOUND_INDEX type) := incoming),
       hal_rx := (hal_rx s)(type := rx)\<rparr>"

text \<open>
  A result of the loop with the contexts and the HAL's buffers replaced in the module
  state, and the result of a call as it follows from the result of its loop.
\<close>

definition with_frame ::
  "(nat \<Rightarrow> packet_receive_data_t) \<Rightarrow> (serial_data_type_t \<Rightarrow> 8 word list)
     \<Rightarrow> error + (effect list \<times> receive_loop_state)
     \<Rightarrow> error + (effect list \<times> receive_loop_state)" where
  "with_frame p h r =
     (case r of Inl e \<Rightarrow> Inl e
      | Inr (eff, rx, incoming, s) \<Rightarrow>
          Inr (eff, rx, incoming, s\<lparr>incoming_packets := p, hal_rx := h\<rparr>))"

definition store_result ::
  "serial_data_type_t \<Rightarrow> error + (effect list \<times> receive_loop_state)
     \<Rightarrow> error + (effect list \<times> hci_state)" where
  "store_result type r =
     (case r of Inl e \<Rightarrow> Inl e
      | Inr (eff, rx1, inc1, s1) \<Rightarrow> Inr (eff, store_context type inc1 rx1 s1))"

text \<open>
  Bytes of one type arrive in the HAL chunk by chunk, and after each chunk the HAL calls
  \<open>hal_says_data_ready\<close>.
\<close>

definition delivery :: "serial_data_type_t \<Rightarrow> 8 word list list \<Rightarrow> operation list" where
  "delivery type chunks =
     concat (map (\<lambda>c. [Op_hal_receives type c, Op_hal_says_data_ready type]) chunks)"

text \<open>
  A result of the loop that has read every byte, lets no packet leave, and does not stop
  inside a body.
\<close>

definition silent :: "error + (effect list \<times> receive_loop_state) \<Rightarrow> bool" where
  "silent r \<longleftrightarrow>
     (case r of Inl e \<Rightarrow> False
      | Inr (eff, rx, incoming, s) \<Rightarrow> quiet eff \<and> rx = [] \<and> state incoming \<noteq> BODY)"

text \<open>
  The hand-over of a complete packet \<open>b\<close> in the module state \<open>s\<close>, in the order of the
  specification: the packet is captured to btsnoop; an event goes to the filter, and to
  the reassembler unless the filter swallowed it; any other packet goes to the
  reassembler; at the end the HAL is notified. The result is the effects and the module
  state after the filter.
\<close>

definition hand_over ::
  "serial_data_type_t \<Rightarrow> BT_HDR \<Rightarrow> hci_state \<Rightarrow> effect list \<times> hci_state" where
  "hand_over type b s =
     (if type = DATA_TYPE_EVENT then
        ([Btsnoop_capture b True] @ fst (snd (filter_incoming_event b s)) @
         (if fst (filter_incoming_event b s) then [] else [Reassemble_and_dispatch b]) @
         [Hal_packet_finished type],
         snd (snd (filter_incoming_event b s)))
      else
        ([Btsnoop_capture b True, Reassemble_and_dispatch b, Hal_packet_finished type], s))"

section \<open>The pending-response list\<close>

lemma get_waiting_command_from_none:
  "get_waiting_command_from nodes l op = (None, l') \<Longrightarrow>
     l' = l \<and> (\<forall>w. Some w \<in> set nodes \<longrightarrow> opcode w \<noteq> op)"
  by (induction nodes l op rule: get_waiting_command_from.induct) (auto split: if_splits)

lemma get_waiting_command_from_some:
  "get_waiting_command_from nodes l op = (Some w, l') \<Longrightarrow>
     \<exists>pre post. nodes = pre @ Some w # post \<and> opcode w = op \<and>
       (\<forall>v. Some v \<in> set pre \<longrightarrow> opcode v \<noteq> op) \<and> l' = list_remove l (Some w)"
proof (induction nodes l op rule: get_waiting_command_from.induct)
  case (1 l op)
  then show ?case by simp
next
  case (2 nodes l op)
  then obtain pre post where "nodes = pre @ Some w # post" "opcode w = op"
    "\<forall>v. Some v \<in> set pre \<longrightarrow> opcode v \<noteq> op" "l' = list_remove l (Some w)"
    by auto
  then have "None # nodes = (None # pre) @ Some w # post \<and> opcode w = op \<and>
       (\<forall>v. Some v \<in> set (None # pre) \<longrightarrow> opcode v \<noteq> op) \<and> l' = list_remove l (Some w)"
    by simp
  then show ?case by blast
next
  case (3 wait_entry nodes l op)
  show ?case
  proof (cases "opcode wait_entry = op")
    case True
    with 3 have "wait_entry = w" "l' = list_remove l (Some w)" by auto
    with True have "Some wait_entry # nodes = [] @ Some w # nodes \<and> opcode w = op \<and>
       (\<forall>v. Some v \<in> set [] \<longrightarrow> opcode v \<noteq> op) \<and> l' = list_remove l (Some w)"
      by simp
    then show ?thesis by blast
  next
    case False
    with 3 obtain pre post where "nodes = pre @ Some w # post" "opcode w = op"
      "\<forall>v. Some v \<in> set pre \<longrightarrow> opcode v \<noteq> op" "l' = list_remove l (Some w)"
      by auto
    with False have "Some wait_entry # nodes = (Some wait_entry # pre) @ Some w # post \<and>
       opcode w = op \<and>
       (\<forall>v. Some v \<in> set (Some wait_entry # pre) \<longrightarrow> opcode v \<noteq> op) \<and>
       l' = list_remove l (Some w)"
      by auto
    then show ?thesis by blast
  qed
qed

lemma remove1_first_match:
  "x \<notin> set pre \<Longrightarrow> remove1 x (pre @ x # post) = pre @ post"
  by (induction pre) auto

text \<open>
  C7. \<open>get_waiting_command\<close> scans the pending-response list from the oldest entry on.
  When no entry has the opcode it returns \<open>NULL\<close> and leaves the list as it is. Otherwise
  it returns the first entry with the opcode (no entry before it has the opcode) and the
  list loses exactly that entry, so entries with the same opcode are taken in the order
  in which they were appended. A lookup removes at most one entry.
\<close>

theorem get_waiting_command_fifo:
  "get_waiting_command op s = (r, s') \<Longrightarrow>
     (case r of
        None \<Rightarrow>
          s' = s \<and> (\<forall>w. Some w \<in> set (commands_pending_response s) \<longrightarrow> opcode w \<noteq> op)
      | Some w \<Rightarrow>
          opcode w = op \<and>
          (\<exists>pre post.
              commands_pending_response s = pre @ Some w # post \<and>
              (\<forall>v. Some v \<in> set pre \<longrightarrow> opcode v \<noteq> op) \<and>
              s' = s\<lparr>commands_pending_response := pre @ post\<rparr>)) \<and>
     length (commands_pending_response s) \<le> Suc (length (commands_pending_response s'))"
proof (cases r)
  case None
  assume a: "get_waiting_command op s = (r, s')"
  with None obtain l' where
    g: "get_waiting_command_from (commands_pending_response s)
          (commands_pending_response s) op = (None, l')" and
    s': "s' = s\<lparr>commands_pending_response := l'\<rparr>"
    by (auto simp: get_waiting_command_def split: prod.splits)
  from get_waiting_command_from_none[OF g] s' None show ?thesis by simp
next
  case (Some w)
  assume a: "get_waiting_command op s = (r, s')"
  with Some obtain l' where
    g: "get_waiting_command_from (commands_pending_response s)
          (commands_pending_response s) op = (Some w, l')" and
    s': "s' = s\<lparr>commands_pending_response := l'\<rparr>"
    by (auto simp: get_waiting_command_def split: prod.splits)
  from get_waiting_command_from_some[OF g] obtain pre post where
    p: "commands_pending_response s = pre @ Some w # post" "opcode w = op"
       "\<forall>v. Some v \<in> set pre \<longrightarrow> opcode v \<noteq> op"
       "l' = list_remove (commands_pending_response s) (Some w)"
    by blast
  from p(2,3) have "Some w \<notin> set pre" by auto
  then have l': "l' = pre @ post"
    using p(1,4) by (simp add: list_remove_def remove1_first_match)
  have "\<exists>pre post.
          commands_pending_response s = pre @ Some w # post \<and>
          (\<forall>v. Some v \<in> set pre \<longrightarrow> opcode v \<noteq> op) \<and>
          s' = s\<lparr>commands_pending_response := pre @ post\<rparr>"
    using p(1,3) s' l' by blast
  moreover have
    "length (commands_pending_response s) \<le> Suc (length (commands_pending_response s'))"
    using p(1) s' l' by simp
  ultimately show ?thesis using Some p(2) by simp
qed

text \<open>
  Three commands are pending, two of them with opcode 0x1002, and a NULL node lies
  between them: the lookup of 0x1002 returns the older of the two.
\<close>

theorem get_waiting_command_fifo_witness:
  "get_waiting_command 0x1002
     (initial_state\<lparr>commands_pending_response :=
        [Some (wait_entry_of [0x01, 0x10, 0] None None),
         Some (wait_entry_of [0x02, 0x10, 0] (Some 1) None),
         None,
         Some (wait_entry_of [0x02, 0x10, 0] (Some 2) None)]\<rparr>)
   = (Some (wait_entry_of [0x02, 0x10, 0] (Some 1) None),
      initial_state\<lparr>commands_pending_response :=
        [Some (wait_entry_of [0x01, 0x10, 0] None None),
         None,
         Some (wait_entry_of [0x02, 0x10, 0] (Some 2) None)]\<rparr>) \<and>
   opcode (wait_entry_of [0x02, 0x10, 0] (Some 1) None) = 0x1002"
  using get_waiting_command_fifo
    [of "0x1002"
        "initial_state\<lparr>commands_pending_response :=
           [Some (wait_entry_of [0x01, 0x10, 0] None None),
            Some (wait_entry_of [0x02, 0x10, 0] (Some 1) None),
            None,
            Some (wait_entry_of [0x02, 0x10, 0] (Some 2) None)]\<rparr>"
        "Some (wait_entry_of [0x02, 0x10, 0] (Some 1) None)"
        "initial_state\<lparr>commands_pending_response :=
           [Some (wait_entry_of [0x01, 0x10, 0] None None),
            None,
            Some (wait_entry_of [0x02, 0x10, 0] (Some 2) None)]\<rparr>"]
  by (simp add: get_waiting_command_def wait_entry_of_def STREAM_TO_UINT16_def bytes_of_def
        list_remove_def)

section \<open>The event filter\<close>

lemma get_waiting_command_credits:
  "get_waiting_command op (s\<lparr>command_credits := c\<rparr>) =
     (fst (get_waiting_command op s), (snd (get_waiting_command op s))\<lparr>command_credits := c\<rparr>)"
  by (simp add: get_waiting_command_def split: prod.splits)

text \<open>
  C1. \<open>filter_incoming_event\<close> returns true exactly for the event codes 0x0E (command
  complete) and 0x0F (command status), whether or not a pending command matches; for any
  other code it returns false, does nothing and changes nothing. On a command-complete
  event: without a waiter only the packet is freed; with a waiter that has a complete
  callback the callback gets the packet, which is not freed, and the command and the wait
  entry are freed; with a waiter that has no complete callback the packet, the command and
  the wait entry are freed. On a command-status event: without a waiter only the packet is
  freed; with a waiter that has a status callback the callback gets the command, which is
  not freed, and the packet and the wait entry are freed; with a waiter that has no status
  callback the packet, the command and the wait entry are freed.
\<close>

theorem filter_incoming_event_disposition:
  "filter_incoming_event packet s = (swallowed, eff, s') \<Longrightarrow>
     (swallowed \<longleftrightarrow> data packet 0 = 0x0E \<or> data packet 0 = 0x0F) \<and>
     (data packet 0 \<noteq> 0x0E \<and> data packet 0 \<noteq> 0x0F \<longrightarrow> eff = [] \<and> s' = s) \<and>
     (data packet 0 = 0x0E \<longrightarrow>
        (case fst (get_waiting_command (STREAM_TO_UINT16 (data packet) 3) s) of
           None \<Rightarrow> disposals eff = [Buffer_free packet]
         | Some w \<Rightarrow>
             (case complete_callback w of
                Some cb \<Rightarrow>
                  disposals eff = [Buffer_free (command w), Osi_free w] \<and>
                  Call_complete_callback cb packet (context_ptr w) \<in> set eff
              | None \<Rightarrow>
                  disposals eff = [Buffer_free packet, Buffer_free (command w), Osi_free w]))) \<and>
     (data packet 0 = 0x0F \<longrightarrow>
        (case fst (get_waiting_command (STREAM_TO_UINT16 (data packet) 4) s) of
           None \<Rightarrow> disposals eff = [Buffer_free packet]
         | Some w \<Rightarrow>
             (case status_callback w of
                Some cb \<Rightarrow>
                  disposals eff = [Buffer_free packet, Osi_free w] \<and>
                  Call_status_callback cb (data packet 2) (command w) (context_ptr w) \<in> set eff
              | None \<Rightarrow>
                  disposals eff = [Buffer_free packet, Buffer_free (command w), Osi_free w])))"
  by (auto simp: filter_incoming_event_def Let_def STREAM_TO_UINT8_def
        HCI_COMMAND_COMPLETE_EVT_def HCI_COMMAND_STATUS_EVT_def get_waiting_command_credits
        intercepted_def disposals_def restart_command_timeout_alarm_def
      split: if_splits option.splits prod.splits)

text \<open>
  The reset command 0x0C03 is pending with a complete callback, and its command-complete
  event arrives with one credit: the event is swallowed, the callback is called with the
  packet, and the command and the wait entry are freed.
\<close>

theorem filter_incoming_event_disposition_witness:
  "filter_incoming_event (packet_of MSG_HC_TO_STACK_HCI_EVT [0x0E, 0x04, 0x01, 0x03, 0x0C, 0x00])
     (initial_state\<lparr>command_credits := 0,
        commands_pending_response := [Some (wait_entry_of [0x03, 0x0C, 0x00] (Some 7) None)]\<rparr>)
   = (True,
      [Call_complete_callback 7
         (packet_of MSG_HC_TO_STACK_HCI_EVT [0x0E, 0x04, 0x01, 0x03, 0x0C, 0x00]) 0,
       Alarm_cancel command_response_alarm,
       Buffer_free (packet_of MSG_STACK_TO_HC_HCI_CMD [0x03, 0x0C, 0x00]),
       Osi_free (wait_entry_of [0x03, 0x0C, 0x00] (Some 7) None)],
      initial_state\<lparr>command_credits := 1, commands_pending_response := []\<rparr>) \<and>
   disposals
     [Call_complete_callback 7
        (packet_of MSG_HC_TO_STACK_HCI_EVT [0x0E, 0x04, 0x01, 0x03, 0x0C, 0x00]) 0,
      Alarm_cancel command_response_alarm,
      Buffer_free (packet_of MSG_STACK_TO_HC_HCI_CMD [0x03, 0x0C, 0x00]),
      Osi_free (wait_entry_of [0x03, 0x0C, 0x00] (Some 7) None)]
   = [Buffer_free (packet_of MSG_STACK_TO_HC_HCI_CMD [0x03, 0x0C, 0x00]),
      Osi_free (wait_entry_of [0x03, 0x0C, 0x00] (Some 7) None)]"
  using filter_incoming_event_disposition
    [of "packet_of MSG_HC_TO_STACK_HCI_EVT [0x0E, 0x04, 0x01, 0x03, 0x0C, 0x00]"
        "initial_state\<lparr>command_credits := 0,
           commands_pending_response := [Some (wait_entry_of [0x03, 0x0C, 0x00] (Some 7) None)]\<rparr>"
        True
        "[Call_complete_callback 7
            (packet_of MSG_HC_TO_STACK_HCI_EVT [0x0E, 0x04, 0x01, 0x03, 0x0C, 0x00]) 0,
          Alarm_cancel command_response_alarm,
          Buffer_free (packet_of MSG_STACK_TO_HC_HCI_CMD [0x03, 0x0C, 0x00]),
          Osi_free (wait_entry_of [0x03, 0x0C, 0x00] (Some 7) None)]"
        "initial_state\<lparr>command_credits := 1, commands_pending_response := []\<rparr>"]
  by (simp add: filter_incoming_event_def Let_def STREAM_TO_UINT8_def STREAM_TO_UINT16_def
        HCI_COMMAND_COMPLETE_EVT_def HCI_COMMAND_STATUS_EVT_def get_waiting_command_def
        intercepted_def disposals_def restart_command_timeout_alarm_def list_remove_def
        packet_of_def wait_entry_of_def bytes_of_def initial_state_def)

section \<open>The command-ready handler\<close>

text \<open>
  C2. With a credit and a command at the head of the command queue,
  \<open>event_command_ready\<close> takes that one command from the queue, lowers the credits by
  one, appends the entry at the tail of the pending-response list, calls \<open>wake_assert\<close>,
  \<open>fragment_and_dispatch\<close> on the command buffer and \<open>transmit_done\<close> in this order,
  and then restarts the command timeout alarm (which arms it, the list being non-empty).
  Without a credit it returns at once: no effect, and the state is the same.
\<close>

theorem event_command_ready_dispatch:
  "(0 < command_credits s \<and> command_queue s = wait_entry # queue \<longrightarrow>
      event_command_ready s =
        Inr ([Wake_assert, Fragment_and_dispatch (command wait_entry), Transmit_done,
              Alarm_set command_response_alarm COMMAND_PENDING_TIMEOUT ''command_timed_out''],
             s\<lparr>command_queue := queue,
               command_credits := command_credits s - 1,
               commands_pending_response := commands_pending_response s @ [Some wait_entry]\<rparr>)) \<and>
   (command_credits s \<le> 0 \<longrightarrow> event_command_ready s = Inr ([], s))"
  by (simp add: event_command_ready_def Let_def restart_command_timeout_alarm_def)

text \<open>
  Two commands are queued and there is one credit: the first call dispatches the older
  command and leaves no credit, the second call does nothing.
\<close>

theorem event_command_ready_dispatch_witness:
  "event_command_ready
     (initial_state\<lparr>command_queue :=
        [wait_entry_of [0x01, 0x10, 0] None None, wait_entry_of [0x02, 0x10, 0] None None]\<rparr>)
   = Inr ([Wake_assert,
           Fragment_and_dispatch (packet_of MSG_STACK_TO_HC_HCI_CMD [0x01, 0x10, 0]),
           Transmit_done,
           Alarm_set command_response_alarm 8000 ''command_timed_out''],
          initial_state\<lparr>command_queue := [wait_entry_of [0x02, 0x10, 0] None None],
            command_credits := 0,
            commands_pending_response := [Some (wait_entry_of [0x01, 0x10, 0] None None)]\<rparr>) \<and>
   event_command_ready
     (initial_state\<lparr>command_queue := [wait_entry_of [0x02, 0x10, 0] None None],
        command_credits := 0,
        commands_pending_response := [Some (wait_entry_of [0x01, 0x10, 0] None None)]\<rparr>)
   = Inr ([],
          initial_state\<lparr>command_queue := [wait_entry_of [0x02, 0x10, 0] None None],
            command_credits := 0,
            commands_pending_response := [Some (wait_entry_of [0x01, 0x10, 0] None None)]\<rparr>)"
  using
    event_command_ready_dispatch
      [of "initial_state\<lparr>command_queue :=
             [wait_entry_of [0x01, 0x10, 0] None None, wait_entry_of [0x02, 0x10, 0] None None]\<rparr>"
          "wait_entry_of [0x01, 0x10, 0] None None"
          "[wait_entry_of [0x02, 0x10, 0] None None]"]
    event_command_ready_dispatch
      [of "initial_state\<lparr>command_queue := [wait_entry_of [0x02, 0x10, 0] None None],
             command_credits := 0,
             commands_pending_response := [Some (wait_entry_of [0x01, 0x10, 0] None None)]\<rparr>"]
  by (simp add: initial_state_def wait_entry_of_def COMMAND_PENDING_TIMEOUT_def)

section \<open>Admission of commands\<close>

text \<open>
  C10. When \<open>osi_calloc\<close> fails, \<open>transmit_command\<close> logs an error and returns. The
  module state is the one before the call, so the command is on no queue; the log entry
  is the only effect, so no callback is called and the command buffer is not freed. Every
  run of the module after the call is the run it would have been without the call, so no
  callback is called for the command later either.
\<close>

theorem transmit_command_allocation_failure:
  "transmit_command False cmd complete_cb status_cb ctx s =
     ([ALOGE ''couldn't allocate space for wait entry''], s) \<and>
   command_queue (snd (transmit_command False cmd complete_cb status_cb ctx s)) = command_queue s \<and>
   disposals (fst (transmit_command False cmd complete_cb status_cb ctx s)) = [] \<and>
   run pf ops (snd (transmit_command False cmd complete_cb status_cb ctx s)) = run pf ops s"
  by (simp add: transmit_command_def disposals_def)

theorem transmit_command_allocation_failure_witness:
  "transmit_command False (packet_of (MSG_OTHER 0) [0x03, 0x0C, 0x00]) (Some 1) (Some 2) 0
     initial_state
   = ([ALOGE ''couldn't allocate space for wait entry''], initial_state) \<and>
   command_queue initial_state = []"
  using transmit_command_allocation_failure
    [of "packet_of (MSG_OTHER 0) [0x03, 0x0C, 0x00]" "Some 1" "Some 2" 0 initial_state
        "platform_failing []" "[]"]
  by (simp add: initial_state_def)

section \<open>Shutting down\<close>

text \<open>
  C8. A call of \<open>shut_down\<close> that finds \<open>has_shut_down\<close> clear performs the teardown
  and leaves the flag set. A call that finds the flag set logs a warning and returns:
  no teardown step, and the state is the same. Hence a call that follows another call
  in the same session is such a call.
\<close>

theorem shut_down_idempotent:
  "(\<not> has_shut_down s \<longrightarrow>
      fst (shut_down s) =
        [ALOGI ''shut_down'', Hci_inject_close] @
        (if thread s then
           (if firmware_is_configured s
            then [Alarm_set epilog_alarm EPILOG_TIMEOUT_MS ''epilog_wait_timer_expired'',
                  Thread_post event_epilog_task]
            else [Thread_stop]) @ [Thread_join]
         else []) @
        [Fixed_queue_free_commands (command_queue s),
         Fixed_queue_free_packets (packet_queue s),
         List_free, Mutex_destroy, Fragmenter_cleanup,
         Alarm_free epilog_alarm, Alarm_free command_response_alarm,
         Low_power_cleanup, Hal_close,
         ALOGD ''setting bluetooth chip power'',
         Vendor_send_command VENDOR_CHIP_POWER_CONTROL BT_VND_PWR_OFF,
         Vendor_close, Thread_free] \<and>
      has_shut_down (snd (shut_down s))) \<and>
   (has_shut_down s \<longrightarrow> shut_down s = ([ALOGW ''already happened for this session''], s)) \<and>
   shut_down (snd (shut_down s)) =
     ([ALOGW ''already happened for this session''], snd (shut_down s))"
  by (simp add: shut_down_def set_chip_power_on_def)

text \<open>
  The module is running with its thread and configured firmware: the first call tears
  down, the second call only logs the warning.
\<close>

theorem shut_down_idempotent_witness:
  "fst (shut_down (initial_state\<lparr>thread := True, firmware_is_configured := True\<rparr>)) =
     [ALOGI ''shut_down'', Hci_inject_close,
      Alarm_set epilog_alarm 3000 ''epilog_wait_timer_expired'',
      Thread_post event_epilog_task, Thread_join,
      Fixed_queue_free_commands [], Fixed_queue_free_packets [],
      List_free, Mutex_destroy, Fragmenter_cleanup,
      Alarm_free epilog_alarm, Alarm_free command_response_alarm,
      Low_power_cleanup, Hal_close,
      ALOGD ''setting bluetooth chip power'',
      Vendor_send_command VENDOR_CHIP_POWER_CONTROL BT_VND_PWR_OFF,
      Vendor_close, Thread_free] \<and>
   snd (shut_down (initial_state\<lparr>thread := True, firmware_is_configured := True\<rparr>)) =
     initial_state\<lparr>has_shut_down := True\<rparr> \<and>
   shut_down (initial_state\<lparr>has_shut_down := True\<rparr>) =
     ([ALOGW ''already happened for this session''], initial_state\<lparr>has_shut_down := True\<rparr>)"
  using
    shut_down_idempotent [of "initial_state\<lparr>thread := True, firmware_is_configured := True\<rparr>"]
    shut_down_idempotent [of "initial_state\<lparr>has_shut_down := True\<rparr>"]
  by (simp add: initial_state_def shut_down_def EPILOG_TIMEOUT_MS_def)

section \<open>The postload task\<close>

text \<open>
  C9, as the code has it. When \<open>send_async_command\<close> returns -1 for the SCO
  configuration, \<open>event_postload\<close> calls \<open>sco_config_callback\<close> with \<open>false\<close>, which
  starts the fetch of the ACL size. For every other result, negative ones too, it calls
  nothing after the vendor command.
\<close>

theorem event_postload_sentinel:
  "(r = - 1 \<longrightarrow>
      event_postload r =
        [ALOGI ''event_postload'', Vendor_send_async_command VENDOR_CONFIGURE_SCO,
         Enter_sco_config_callback False, Controller_begin_acl_size_fetch]) \<and>
   (r \<noteq> - 1 \<longrightarrow>
      event_postload r =
        [ALOGI ''event_postload'', Vendor_send_async_command VENDOR_CONFIGURE_SCO])"
  by (simp add: event_postload_def sco_config_callback_def)

theorem event_postload_sentinel_witness:
  "event_postload (- 1) =
     [ALOGI ''event_postload'', Vendor_send_async_command VENDOR_CONFIGURE_SCO,
      Enter_sco_config_callback False, Controller_begin_acl_size_fetch] \<and>
   event_postload 0 =
     [ALOGI ''event_postload'', Vendor_send_async_command VENDOR_CONFIGURE_SCO]"
  using event_postload_sentinel [of "- 1"] event_postload_sentinel [of 0]
  by simp

text \<open>
  The result -2 is negative, and \<open>sco_config_callback\<close> is not called.
\<close>

theorem event_postload_negative_counterexample:
  "(- 2 :: int) < 0 \<and> Enter_sco_config_callback False \<notin> set (event_postload (- 2))"
  by (simp add: event_postload_def sco_config_callback_def)

section \<open>The reassembly loop\<close>

lemma quiet_Nil [simp]: "quiet []"
  by (simp add: quiet_def)

lemma quiet_append [simp]: "quiet (a @ b) \<longleftrightarrow> quiet a \<and> quiet b"
  by (auto simp: quiet_def)

lemma case_PREAMBLE_result:
  "case_PREAMBLE pf type byte (rx, incoming, s) = Inr (eff, rx', inc', s') \<Longrightarrow>
     rx' = rx \<and> quiet eff \<and> (\<exists>n. s' = s\<lparr>alloc_calls := n\<rparr>)"
  by (auto simp: case_PREAMBLE_def Let_def quiet_def split: if_splits option.splits
      intro: exI[of _ "alloc_calls s"])

lemma case_BODY_result:
  "case_BODY byte (rx, incoming, s) = Inr (eff, rx', inc', s') \<Longrightarrow>
     (\<exists>k. rx' = drop k rx) \<and> eff = [] \<and> s' = s"
  by (auto simp: case_BODY_def Let_def hal_read_data_def split: option.splits)

lemma switch_state_result:
  "switch_state pf type byte (rx, incoming, s) = Inr (eff, rx', inc', s') \<Longrightarrow>
     (\<exists>k. rx' = drop k rx) \<and> quiet eff \<and> (\<exists>n. s' = s\<lparr>alloc_calls := n\<rparr>)"
proof (cases "state incoming")
  case BRAND_NEW
  assume "switch_state pf type byte (rx, incoming, s) = Inr (eff, rx', inc', s')"
  with BRAND_NEW have "case_PREAMBLE pf type byte (rx, case_BRAND_NEW type incoming, s) = Inr (eff, rx', inc', s')"
    by (simp add: switch_state_def)
  from case_PREAMBLE_result[OF this] show ?thesis by (auto intro: exI[of _ 0])
next
  case PREAMBLE
  assume "switch_state pf type byte (rx, incoming, s) = Inr (eff, rx', inc', s')"
  with PREAMBLE have "case_PREAMBLE pf type byte (rx, incoming, s) = Inr (eff, rx', inc', s')"
    by (simp add: switch_state_def)
  from case_PREAMBLE_result[OF this] show ?thesis by (auto intro: exI[of _ 0])
next
  case BODY
  assume "switch_state pf type byte (rx, incoming, s) = Inr (eff, rx', inc', s')"
  with BODY have "case_BODY byte (rx, incoming, s) = Inr (eff, rx', inc', s')"
    by (simp add: switch_state_def)
  from case_BODY_result[OF this] show ?thesis by (auto intro: exI[of _ "alloc_calls s"])
next
  case IGNORE
  assume "switch_state pf type byte (rx, incoming, s) = Inr (eff, rx', inc', s')"
  with IGNORE show ?thesis
    by (auto simp: switch_state_def quiet_def intro: exI[of _ 0] exI[of _ "alloc_calls s"])
next
  case FINISHED
  assume "switch_state pf type byte (rx, incoming, s) = Inr (eff, rx', inc', s')"
  with FINISHED show ?thesis
    by (auto simp: switch_state_def quiet_def intro: exI[of _ 0] exI[of _ "alloc_calls s"])
qed

lemma filter_incoming_event_quiet:
  "filter_incoming_event packet s = (swallowed, eff, s') \<Longrightarrow> quiet eff"
  by (auto simp: filter_incoming_event_def Let_def intercepted_def quiet_def
        restart_command_timeout_alarm_def
      split: if_splits option.splits prod.splits)

lemma finished_block_result:
  "finished_block type (rx, incoming, s) = Inr (eff, rx', inc', s') \<Longrightarrow>
     rx' = rx \<and> inc' = incoming\<lparr>buffer := None, state := BRAND_NEW\<rparr> \<and>
     (\<exists>b mid. buffer incoming = Some b \<and>
        eff = Btsnoop_capture (b\<lparr>len := index incoming\<rparr>) True # mid @ [Hal_packet_finished type] \<and>
        (type \<noteq> DATA_TYPE_EVENT \<longrightarrow>
           mid = [Reassemble_and_dispatch (b\<lparr>len := index incoming\<rparr>)] \<and> s' = s) \<and>
        (type = DATA_TYPE_EVENT \<longrightarrow>
           mid = fst (snd (filter_incoming_event (b\<lparr>len := index incoming\<rparr>) s)) @
                 (if fst (filter_incoming_event (b\<lparr>len := index incoming\<rparr>) s) then []
                  else [Reassemble_and_dispatch (b\<lparr>len := index incoming\<rparr>)]) \<and>
           s' = snd (snd (filter_incoming_event (b\<lparr>len := index incoming\<rparr>) s))))"
  by (auto simp: finished_block_def Let_def split: option.splits if_splits prod.splits)

lemma get_waiting_command_alloc_calls:
  "get_waiting_command op (s\<lparr>alloc_calls := n\<rparr>) =
     (case get_waiting_command op s of (r, s') \<Rightarrow> (r, s'\<lparr>alloc_calls := n\<rparr>))"
  by (simp add: get_waiting_command_def split: prod.splits)

lemma restart_alloc_calls [simp]:
  "restart_command_timeout_alarm (s\<lparr>alloc_calls := n\<rparr>) = restart_command_timeout_alarm s"
  by (simp add: restart_command_timeout_alarm_def)

lemma intercepted_alloc_calls [simp]:
  "intercepted packet code w (s\<lparr>alloc_calls := n\<rparr>) = intercepted packet code w s"
  by (simp add: intercepted_def)

lemma filter_incoming_event_alloc_calls:
  "filter_incoming_event packet (s\<lparr>alloc_calls := n\<rparr>) =
     (case filter_incoming_event packet s of (b, eff, s') \<Rightarrow> (b, eff, s'\<lparr>alloc_calls := n\<rparr>))"
proof -
  have c: "\<And>c. (s\<lparr>alloc_calls := n\<rparr>)\<lparr>command_credits := c\<rparr> =
              (s\<lparr>command_credits := c\<rparr>)\<lparr>alloc_calls := n\<rparr>"
    by simp
  show ?thesis
    unfolding filter_incoming_event_def Let_def c get_waiting_command_alloc_calls
    by (simp split: prod.splits)
qed

lemma emits_one_alloc_calls:
  "emits_one type (s\<lparr>alloc_calls := n\<rparr>) eff inc' = emits_one type s eff inc'"
  by (simp add: emits_one_def filter_incoming_event_alloc_calls case_prod_beta)

lemma emits_one_prepend:
  "quiet eff0 \<Longrightarrow> emits_one type s eff inc' \<Longrightarrow> emits_one type s (eff0 @ eff) inc'"
  unfolding emits_one_def
  apply (elim exE conjE)
  subgoal for pre b mid
    apply (rule exI[of _ "eff0 @ pre"], rule exI[of _ b], rule exI[of _ mid])
    apply simp
    done
  done

lemma loop_one_packet:
  "hal_says_data_ready_loop pf type (rx, incoming, s) = Inr (eff, rx', inc', s') \<Longrightarrow>
     (quiet eff \<and> rx' = []) \<or> emits_one type s eff inc'"
proof (induction pf type "(rx, incoming, s)" arbitrary: rx incoming s eff rx' inc' s'
       rule: hal_says_data_ready_loop.induct)
  case (1 pf type incoming s)
  then show ?case by auto
next
  case (2 pf type byte rx incoming s)
  from "2.prems" obtain eff1 rx1 inc1 s1 where
    sw: "switch_state pf type byte (rx, incoming, s) = Inr (eff1, rx1, inc1, s1)"
    by (auto split: sum.splits)
  from switch_state_result[OF sw] obtain n where q: "quiet eff1" and s1: "s1 = s\<lparr>alloc_calls := n\<rparr>"
    by blast
  show ?case
  proof (cases "state inc1 = FINISHED")
    case True
    with "2.prems" sw obtain eff2 where
      pf: "finished_block type (rx1, inc1, s1) = Inr (eff2, rx', inc', s')" and e: "eff = eff1 @ eff2"
      by (auto split: sum.splits)
    from finished_block_result[OF pf] obtain b mid where
      r: "inc' = inc1\<lparr>buffer := None, state := BRAND_NEW\<rparr>" "buffer inc1 = Some b"
         "eff2 = Btsnoop_capture (b\<lparr>len := index inc1\<rparr>) True # mid @ [Hal_packet_finished type]"
         "type \<noteq> DATA_TYPE_EVENT \<longrightarrow>
           mid = [Reassemble_and_dispatch (b\<lparr>len := index inc1\<rparr>)]"
         "type = DATA_TYPE_EVENT \<longrightarrow>
           mid = fst (snd (filter_incoming_event (b\<lparr>len := index inc1\<rparr>) s1)) @
                 (if fst (filter_incoming_event (b\<lparr>len := index inc1\<rparr>) s1) then []
                  else [Reassemble_and_dispatch (b\<lparr>len := index inc1\<rparr>)])"
      by blast
    have "emits_one type s1 eff2 inc'"
      unfolding emits_one_def
      apply (rule exI[of _ "[]"], rule exI[of _ "b\<lparr>len := index inc1\<rparr>"], rule exI[of _ mid])
      using r by simp
    then have "emits_one type s eff inc'"
      using emits_one_prepend[OF q] e s1 by (simp add: emits_one_alloc_calls)
    then show ?thesis by simp
  next
    case False
    with "2.prems" sw obtain eff2 where
      lp: "hal_says_data_ready_loop pf type (rx1, inc1, s1) = Inr (eff2, rx', inc', s')" and
      e: "eff = eff1 @ eff2"
      by (auto split: sum.splits)
    from "2.hyps"[OF sw refl refl refl False lp]
    have "(quiet eff2 \<and> rx' = []) \<or> emits_one type s1 eff2 inc'" .
    then show ?thesis
    proof
      assume "quiet eff2 \<and> rx' = []"
      then show ?thesis using q e by auto
    next
      assume "emits_one type s1 eff2 inc'"
      then have "emits_one type s (eff1 @ eff2) inc'"
        using emits_one_prepend[OF q] s1 by (simp add: emits_one_alloc_calls)
      then show ?thesis using e by simp
    qed
  qed
qed

lemma emits_one_counts:
  assumes "emits_one type s eff inc'"
  shows "length (filter is_capture eff) \<le> 1 \<and> length (filter is_reassemble eff) \<le> 1 \<and>
         length (filter is_packet_finished eff) \<le> 1 \<and> \<not> quiet eff"
proof -
  from assms obtain pre b mid where
    e: "eff = pre @ Btsnoop_capture b True # mid @ [Hal_packet_finished type]" and q: "quiet pre" and
    m: "mid =
          (if type = DATA_TYPE_EVENT
           then fst (snd (filter_incoming_event b s)) @
                (if fst (filter_incoming_event b s) then [] else [Reassemble_and_dispatch b])
           else [Reassemble_and_dispatch b])"
    unfolding emits_one_def by blast
  have fq: "quiet (fst (snd (filter_incoming_event b s)))"
    using filter_incoming_event_quiet[of b s] by (metis prod.collapse)
  have "filter is_capture mid = [] \<and> length (filter is_reassemble mid) \<le> 1 \<and>
        filter is_packet_finished mid = []"
    using m fq by (cases "type = DATA_TYPE_EVENT") (auto simp: quiet_def)
  with e q show ?thesis by (auto simp: quiet_def)
qed

lemma case_BODY_append:
  assumes "case_BODY byte (rx, incoming, s) = Inr (eff, rx', inc', s')"
    and "state inc' = FINISHED \<or> rx' \<noteq> []" and "state incoming = BODY"
  shows "case_BODY byte (rx @ extra, incoming, s) = Inr (eff, rx' @ extra, inc', s')"
proof -
  from assms(1) obtain b where b: "buffer incoming = Some b"
    by (auto simp: case_BODY_def split: option.splits)
  define k where "k = unat (bytes_remaining incoming - 1)"
  have klt: "k < 2 ^ 16" unfolding k_def using unsigned_less[of "bytes_remaining incoming - 1"] by simp
  have rx': "rx' = drop k rx"
    using assms(1) b by (auto simp: case_BODY_def Let_def hal_read_data_def k_def)
  have "k \<le> length rx"
  proof (rule ccontr)
    assume "\<not> k \<le> length rx"
    then have lt: "length rx < k" by simp
    then have "rx' = []" using rx' by simp
    with assms(2) have fin: "state inc' = FINISHED" by simp
    have tk: "take k rx = rx" using lt by simp
    from assms(1) b fin assms(3) tk
    have "bytes_remaining incoming - 1 - of_nat (length rx) = 0"
      by (auto simp: case_BODY_def Let_def hal_read_data_def k_def split: if_splits)
    then have "bytes_remaining incoming - 1 = (of_nat (length rx) :: 16 word)" by simp
    then have "k = unat (of_nat (length rx) :: 16 word)" by (simp add: k_def)
    also have "\<dots> = length rx" using lt klt by (simp add: unat_of_nat)
    finally show False using lt by simp
  qed
  then have h1: "hal_read_data (unat (bytes_remaining incoming - 1)) (rx @ extra) =
      (take k rx, drop k rx @ extra)"
    by (simp add: hal_read_data_def k_def)
  have h2: "hal_read_data (unat (bytes_remaining incoming - 1)) rx = (take k rx, drop k rx)"
    by (simp add: hal_read_data_def k_def)
  show ?thesis
    using assms(1) b by (simp add: case_BODY_def Let_def h1 h2)
qed

lemma case_PREAMBLE_any_rx:
  "case_PREAMBLE pf type byte (rx, incoming, s) = Inr (eff, rx', inc', s') \<Longrightarrow>
     case_PREAMBLE pf type byte (rx2, incoming, s) = Inr (eff, rx2, inc', s')"
  by (auto simp: case_PREAMBLE_def Let_def split: if_splits option.splits)

lemma switch_state_append:
  assumes "switch_state pf type byte (rx, incoming, s) = Inr (eff, rx', inc', s')"
    and "state inc' = FINISHED \<or> rx' \<noteq> []"
  shows "switch_state pf type byte (rx @ extra, incoming, s) = Inr (eff, rx' @ extra, inc', s')"
proof (cases "state incoming")
  case BRAND_NEW
  with assms(1) have c: "case_PREAMBLE pf type byte (rx, case_BRAND_NEW type incoming, s) = Inr (eff, rx', inc', s')"
    by (simp add: switch_state_def)
  from case_PREAMBLE_result[OF c] have "rx' = rx" by simp
  with case_PREAMBLE_any_rx[OF c, of "rx @ extra"] BRAND_NEW show ?thesis
    by (simp add: switch_state_def)
next
  case PREAMBLE
  with assms(1) have c: "case_PREAMBLE pf type byte (rx, incoming, s) = Inr (eff, rx', inc', s')"
    by (simp add: switch_state_def)
  from case_PREAMBLE_result[OF c] have "rx' = rx" by simp
  with case_PREAMBLE_any_rx[OF c, of "rx @ extra"] PREAMBLE show ?thesis
    by (simp add: switch_state_def)
next
  case BODY
  with assms(1) have c: "case_BODY byte (rx, incoming, s) = Inr (eff, rx', inc', s')"
    by (simp add: switch_state_def)
  from case_BODY_append[OF c assms(2) BODY] BODY show ?thesis
    by (simp add: switch_state_def)
next
  case IGNORE
  with assms(1) show ?thesis by (auto simp: switch_state_def)
next
  case FINISHED
  with assms(1) show ?thesis by (auto simp: switch_state_def)
qed

lemma finished_block_any_rx:
  "finished_block type (rx, incoming, s) = Inr (eff, rx', inc', s') \<Longrightarrow>
     finished_block type (rx2, incoming, s) = Inr (eff, rx2, inc', s')"
  by (auto simp: finished_block_def Let_def split: option.splits if_splits prod.splits)

lemma loop_append:
  "hal_says_data_ready_loop pf type (rx, incoming, s) = Inr (eff, rx', inc', s') \<Longrightarrow>
     \<not> quiet eff \<Longrightarrow>
     hal_says_data_ready_loop pf type (rx @ extra, incoming, s) = Inr (eff, rx' @ extra, inc', s')"
proof (induction pf type "(rx, incoming, s)" arbitrary: rx incoming s eff rx' inc' s'
       rule: hal_says_data_ready_loop.induct)
  case (1 pf type incoming s)
  then show ?case by simp
next
  case (2 pf type byte rx incoming s)
  from "2.prems" obtain eff1 rx1 inc1 s1 where
    sw: "switch_state pf type byte (rx, incoming, s) = Inr (eff1, rx1, inc1, s1)"
    by (auto split: sum.splits)
  from switch_state_result[OF sw] have q: "quiet eff1" by blast
  show ?case
  proof (cases "state inc1 = FINISHED")
    case True
    with "2.prems" sw obtain eff2 where
      pf: "finished_block type (rx1, inc1, s1) = Inr (eff2, rx', inc', s')" and e: "eff = eff1 @ eff2"
      by (auto split: sum.splits)
    from finished_block_result[OF pf] have rx': "rx' = rx1" by simp
    from switch_state_append[OF sw, of extra] True
    have sw2: "switch_state pf type byte (rx @ extra, incoming, s) = Inr (eff1, rx1 @ extra, inc1, s1)"
      by simp
    from finished_block_any_rx[OF pf, of "rx1 @ extra"] sw2 True e rx' show ?thesis by simp
  next
    case False
    with "2.prems" sw obtain eff2 where
      lp: "hal_says_data_ready_loop pf type (rx1, inc1, s1) = Inr (eff2, rx', inc', s')" and
      e: "eff = eff1 @ eff2"
      by (auto split: sum.splits)
    from e q "2.prems"(2) have nq: "\<not> quiet eff2" by simp
    have "rx1 \<noteq> []"
    proof
      assume "rx1 = []"
      with lp have "eff2 = []" by simp
      with nq show False by simp
    qed
    with switch_state_append[OF sw, of extra]
    have sw2: "switch_state pf type byte (rx @ extra, incoming, s) = Inr (eff1, rx1 @ extra, inc1, s1)"
      by simp
    from "2.hyps"[OF sw refl refl refl False lp nq]
    have "hal_says_data_ready_loop pf type (rx1 @ extra, inc1, s1) = Inr (eff2, rx' @ extra, inc', s')" .
    with sw2 False e show ?thesis by simp
  qed
qed


lemma get_waiting_command_hal_rx:
  "get_waiting_command op (s\<lparr>hal_rx := h\<rparr>) =
     (case get_waiting_command op s of (r, s') \<Rightarrow> (r, s'\<lparr>hal_rx := h\<rparr>))"
  by (simp add: get_waiting_command_def split: prod.splits)

lemma restart_hal_rx [simp]:
  "restart_command_timeout_alarm (s\<lparr>hal_rx := h\<rparr>) = restart_command_timeout_alarm s"
  by (simp add: restart_command_timeout_alarm_def)

lemma intercepted_hal_rx [simp]:
  "intercepted packet code w (s\<lparr>hal_rx := h\<rparr>) = intercepted packet code w s"
  by (simp add: intercepted_def)

lemma filter_incoming_event_hal_rx:
  "filter_incoming_event packet (s\<lparr>hal_rx := h\<rparr>) =
     (case filter_incoming_event packet s of (b, eff, s') \<Rightarrow> (b, eff, s'\<lparr>hal_rx := h\<rparr>))"
proof -
  have c: "\<And>c. (s\<lparr>hal_rx := h\<rparr>)\<lparr>command_credits := c\<rparr> = (s\<lparr>command_credits := c\<rparr>)\<lparr>hal_rx := h\<rparr>"
    by simp
  show ?thesis
    unfolding filter_incoming_event_def Let_def c get_waiting_command_hal_rx
    by (simp split: prod.splits)
qed

lemma finished_block_hal_rx:
  "finished_block type (rx, incoming, s) = Inr (eff, rx', inc', s') \<Longrightarrow>
     finished_block type (rx, incoming, s\<lparr>hal_rx := h\<rparr>) = Inr (eff, rx', inc', s'\<lparr>hal_rx := h\<rparr>)"
  by (auto simp: finished_block_def Let_def filter_incoming_event_hal_rx
      split: option.splits if_splits prod.splits)


lemma case_PREAMBLE_hal_rx:
  "case_PREAMBLE pf type byte (rx, incoming, s\<lparr>hal_rx := h\<rparr>) =
     with_hal_rx h (case_PREAMBLE pf type byte (rx, incoming, s))"
  by (simp add: case_PREAMBLE_def Let_def with_hal_rx_def split: option.split)

lemma case_BODY_hal_rx:
  "case_BODY byte (rx, incoming, s\<lparr>hal_rx := h\<rparr>) =
     with_hal_rx h (case_BODY byte (rx, incoming, s))"
  by (simp add: case_BODY_def Let_def with_hal_rx_def hal_read_data_def split: option.split)

lemma switch_state_hal_rx:
  "switch_state pf type byte (rx, incoming, s\<lparr>hal_rx := h\<rparr>) =
     with_hal_rx h (switch_state pf type byte (rx, incoming, s))"
  by (cases "state incoming")
     (simp_all add: switch_state_def case_PREAMBLE_hal_rx case_BODY_hal_rx, simp_all add: with_hal_rx_def)


lemma filter_incoming_event_frame:
  "filter_incoming_event packet s = (b, eff, s') \<Longrightarrow>
     incoming_packets s' = incoming_packets s \<and> hal_rx s' = hal_rx s \<and>
     alloc_calls s' = alloc_calls s"
  by (auto simp: filter_incoming_event_def Let_def get_waiting_command_def
      split: if_splits prod.splits)

lemma finished_block_frame:
  "finished_block type (rx, incoming, s) = Inr (eff, rx', inc', s') \<Longrightarrow>
     incoming_packets s' = incoming_packets s \<and> hal_rx s' = hal_rx s"
proof -
  assume a: "finished_block type (rx, incoming, s) = Inr (eff, rx', inc', s')"
  from finished_block_result[OF a] obtain b where
    r: "type \<noteq> DATA_TYPE_EVENT \<longrightarrow> s' = s"
       "type = DATA_TYPE_EVENT \<longrightarrow>
          s' = snd (snd (filter_incoming_event (b\<lparr>len := index incoming\<rparr>) s))"
    by blast
  show ?thesis
  proof (cases "type = DATA_TYPE_EVENT")
    case True
    with r filter_incoming_event_frame[of "b\<lparr>len := index incoming\<rparr>" s] show ?thesis
      by (metis prod.collapse)
  next
    case False
    with r show ?thesis by simp
  qed
qed

lemma loop_frame:
  "hal_says_data_ready_loop pf type (rx, incoming, s) = Inr (eff, rx', inc', s') \<Longrightarrow>
     incoming_packets s' = incoming_packets s \<and> hal_rx s' = hal_rx s"
proof (induction pf type "(rx, incoming, s)" arbitrary: rx incoming s eff rx' inc' s'
       rule: hal_says_data_ready_loop.induct)
  case (1 pf type incoming s)
  then show ?case by simp
next
  case (2 pf type byte rx incoming s)
  from "2.prems" obtain eff1 rx1 inc1 s1 where
    sw: "switch_state pf type byte (rx, incoming, s) = Inr (eff1, rx1, inc1, s1)"
    by (auto split: sum.splits)
  from switch_state_result[OF sw]
  have s1: "incoming_packets s1 = incoming_packets s \<and> hal_rx s1 = hal_rx s"
    by auto
  show ?case
  proof (cases "state inc1 = FINISHED")
    case True
    with "2.prems" sw obtain eff2 where
      pf: "finished_block type (rx1, inc1, s1) = Inr (eff2, rx', inc', s')"
      by (auto split: sum.splits)
    from finished_block_frame[OF pf] s1 show ?thesis by simp
  next
    case False
    with "2.prems" sw obtain eff2 where
      lp: "hal_says_data_ready_loop pf type (rx1, inc1, s1) = Inr (eff2, rx', inc', s')"
      by (auto split: sum.splits)
    from "2.hyps"[OF sw refl refl refl False lp] s1 show ?thesis by simp
  qed
qed

lemma loop_hal_rx:
  "hal_says_data_ready_loop pf type (rx, incoming, s) = Inr (eff, rx', inc', s') \<Longrightarrow>
     hal_says_data_ready_loop pf type (rx, incoming, s\<lparr>hal_rx := h\<rparr>) =
       Inr (eff, rx', inc', s'\<lparr>hal_rx := h\<rparr>)"
proof (induction pf type "(rx, incoming, s)" arbitrary: rx incoming s eff rx' inc' s'
       rule: hal_says_data_ready_loop.induct)
  case (1 pf type incoming s)
  then show ?case by simp
next
  case (2 pf type byte rx incoming s)
  from "2.prems" obtain eff1 rx1 inc1 s1 where
    sw: "switch_state pf type byte (rx, incoming, s) = Inr (eff1, rx1, inc1, s1)"
    by (auto split: sum.splits)
  have sw2: "switch_state pf type byte (rx, incoming, s\<lparr>hal_rx := h\<rparr>) =
      Inr (eff1, rx1, inc1, s1\<lparr>hal_rx := h\<rparr>)"
    by (simp add: switch_state_hal_rx sw with_hal_rx_def)
  show ?case
  proof (cases "state inc1 = FINISHED")
    case True
    with "2.prems" sw obtain eff2 where
      pf: "finished_block type (rx1, inc1, s1) = Inr (eff2, rx', inc', s')" and e: "eff = eff1 @ eff2"
      by (auto split: sum.splits)
    from finished_block_hal_rx[OF pf, of h] sw2 True e show ?thesis by simp
  next
    case False
    with "2.prems" sw obtain eff2 where
      lp: "hal_says_data_ready_loop pf type (rx1, inc1, s1) = Inr (eff2, rx', inc', s')" and
      e: "eff = eff1 @ eff2"
      by (auto split: sum.splits)
    from "2.hyps"[OF sw refl refl refl False lp] sw2 False e show ?thesis by simp
  qed
qed


lemma unat_inc_small: "unat (w :: 16 word) < 4 \<Longrightarrow> unat (w + 1) = Suc (unat w)"
  by (simp add: unat_word_ariths)

lemma unat_dec_pos: "(w :: 16 word) \<noteq> 0 \<Longrightarrow> unat (w - 1) = unat w - 1"
  by (simp add: unat_minus_one)

lemma case_PREAMBLE_well_formed:
  assumes "state incoming = PREAMBLE" and "well_formed incoming"
  shows "\<exists>eff inc' s'. case_PREAMBLE pf type byte (rx, incoming, s) = Inr (eff, rx, inc', s') \<and>
           (state inc' = FINISHED \<and> buffer inc' \<noteq> None \<or> well_formed inc')"
proof -
  from assms have nz: "bytes_remaining incoming \<noteq> 0" and
    le: "unat (index incoming) + unat (bytes_remaining incoming) \<le> 4"
    by (simp_all add: well_formed_def PREAMBLE_BUFFER_SIZE_def)
  from nz have pos: "0 < unat (bytes_remaining incoming)" by (simp add: unat_gt_0)
  with le have i4: "unat (index incoming) < 4" by simp
  show ?thesis
  proof (cases "bytes_remaining incoming - 1 = 0")
    case False
    have "unat (index incoming + 1) + unat (bytes_remaining incoming - 1) \<le> 4"
      using le pos i4 nz by (simp add: unat_inc_small unat_dec_pos)
    with False i4 assms(1) show ?thesis
      by (simp add: case_PREAMBLE_def Let_def PREAMBLE_BUFFER_SIZE_def well_formed_def)
  next
    case True
    with i4 assms(1) show ?thesis
      by (auto simp: case_PREAMBLE_def Let_def PREAMBLE_BUFFER_SIZE_def well_formed_def
          split: option.splits)
  qed
qed

lemma case_BRAND_NEW_well_formed:
  "state (case_BRAND_NEW type incoming) = PREAMBLE \<and> well_formed (case_BRAND_NEW type incoming)"
  by (cases type)
     (simp_all add: case_BRAND_NEW_def well_formed_def PACKET_TYPE_TO_INDEX_def
        preamble_sizes_def PREAMBLE_BUFFER_SIZE_def)

lemma switch_state_well_formed:
  assumes "well_formed incoming"
  shows "\<exists>eff rx' inc' s'. switch_state pf type byte (rx, incoming, s) = Inr (eff, rx', inc', s') \<and>
           (state inc' = FINISHED \<and> buffer inc' \<noteq> None \<or> well_formed inc')"
proof (cases "state incoming")
  case BRAND_NEW
  from case_BRAND_NEW_well_formed[of type incoming]
  have "state (case_BRAND_NEW type incoming) = PREAMBLE" "well_formed (case_BRAND_NEW type incoming)"
    by simp_all
  from case_PREAMBLE_well_formed[OF this, of pf type byte rx s] BRAND_NEW show ?thesis
    by (auto simp: switch_state_def)
next
  case PREAMBLE
  from case_PREAMBLE_well_formed[OF PREAMBLE assms, of pf type byte rx s] PREAMBLE show ?thesis
    by (auto simp: switch_state_def)
next
  case BODY
  with assms obtain b where "buffer incoming = Some b" by (auto simp: well_formed_def)
  with BODY show ?thesis
    by (auto simp: switch_state_def case_BODY_def Let_def hal_read_data_def well_formed_def)
next
  case IGNORE
  then show ?thesis
    by (auto simp: switch_state_def case_IGNORE_def Let_def well_formed_def)
next
  case FINISHED
  with assms show ?thesis by (simp add: well_formed_def)
qed

lemma finished_block_returns:
  assumes "buffer incoming \<noteq> None"
  shows "\<exists>eff inc' s'. finished_block type (rx, incoming, s) = Inr (eff, rx, inc', s') \<and>
           well_formed inc'"
  using assms
  by (auto simp: finished_block_def Let_def well_formed_def split: prod.splits)

lemma loop_returns:
  "well_formed incoming \<Longrightarrow>
     \<exists>eff rx' inc' s'. hal_says_data_ready_loop pf type (rx, incoming, s) = Inr (eff, rx', inc', s') \<and>
        well_formed inc'"
proof (induction pf type "(rx, incoming, s)" arbitrary: rx incoming s
       rule: hal_says_data_ready_loop.induct)
  case (1 pf type incoming s)
  then show ?case by simp
next
  case (2 pf type byte rx incoming s)
  from switch_state_well_formed[OF "2.prems", of pf type byte rx s] obtain eff1 rx1 inc1 s1 where
    sw: "switch_state pf type byte (rx, incoming, s) = Inr (eff1, rx1, inc1, s1)" and
    w: "state inc1 = FINISHED \<and> buffer inc1 \<noteq> None \<or> well_formed inc1"
    by blast
  show ?case
  proof (cases "state inc1 = FINISHED")
    case True
    with w have "buffer inc1 \<noteq> None" by (auto simp: well_formed_def)
    from finished_block_returns[OF this, of type rx1 s1] sw True show ?thesis by auto
  next
    case False
    with w have "well_formed inc1" by simp
    from "2.hyps"[OF sw refl refl refl False this] sw False show ?thesis by auto
  qed
qed

section \<open>Completing a preamble\<close>

lemma le16_or_add:
  "push_bit 8 (ucast (a :: 8 word) :: 16 word) OR ucast (b :: 8 word) =
     push_bit 8 (ucast a) + ucast b"
  by (rule disjunctive_add[symmetric]) (auto simp: bit_simps dest: bit_imp_le_length)

lemma unat_ucast_8_16: "unat (ucast (a :: 8 word) :: 16 word) = unat a"
  by (simp add: unsigned_ucast_eq take_bit_nat_eq_self less_trans [OF unsigned_less [of a, simplified]])

lemma unat_le16:
  "unat (push_bit 8 (ucast (a :: 8 word) :: 16 word) OR ucast (b :: 8 word)) = unat b + 256 * unat a"
proof -
  have a: "unat a < 256" using unsigned_less[of a] by simp
  have b: "unat b < 256" using unsigned_less[of b] by simp
  have "unat (push_bit 8 (ucast a :: 16 word) + ucast b) = (256 * unat a + unat b) mod 65536"
    by (simp add: unat_word_ariths push_bit_eq_mult unat_ucast_8_16 mod_simps mult.commute)
  also have "\<dots> = 256 * unat a + unat b" using a b by simp
  finally show ?thesis by (simp add: le16_or_add)
qed

lemma length_2: "length xs = 2 \<Longrightarrow> \<exists>a b. xs = [a, b]"
  by (cases xs; cases "tl xs") auto

lemma length_3: "length xs = 3 \<Longrightarrow> \<exists>a b c. xs = [a, b, c]"
  by (cases xs; cases "tl xs"; cases "tl (tl xs)") auto

lemma length_4: "length xs = 4 \<Longrightarrow> \<exists>a b c d. xs = [a, b, c, d]"
  by (cases xs; cases "tl xs"; cases "tl (tl xs)"; cases "tl (tl (tl xs))") auto

lemma less_2: "(i::nat) < 2 \<longleftrightarrow> i = 0 \<or> i = 1" by auto
lemma less_3: "(i::nat) < 3 \<longleftrightarrow> i = 0 \<or> i = 1 \<or> i = 2" by auto
lemma less_4: "(i::nat) < 4 \<longleftrightarrow> i = 0 \<or> i = 1 \<or> i = 2 \<or> i = 3" by auto

lemma ucast_8_16_eq_0: "(ucast (a :: 8 word) :: 16 word) = 0 \<longleftrightarrow> a = 0"
  by (metis unat_ucast_8_16 unat_eq_zero)


lemma case_PREAMBLE_continues:
  assumes "unat (index incoming) < 4" and "bytes_remaining incoming \<noteq> 1"
  shows "case_PREAMBLE pf type byte (rx, incoming, s) = Inr ([], rx, preamble_byte byte incoming, s)"
  using assms by (simp add: case_PREAMBLE_def Let_def PREAMBLE_BUFFER_SIZE_def preamble_byte_def)

lemma case_PREAMBLE_completes:
  assumes "unat (index incoming) < 4" and "bytes_remaining incoming = 1"
    and "buffer_allocator_alloc pf (alloc_calls s)
           (BT_HDR_SIZE pf + unat (index incoming + 1) + unat (body_length_of type byte incoming)) = Some b"
  shows "case_PREAMBLE pf type byte (rx, incoming, s) =
     Inr ([Buffer_alloc (BT_HDR_SIZE pf + unat (index incoming + 1) +
                         unat (body_length_of type byte incoming))],
          rx,
          (preamble_byte byte incoming)
            \<lparr>bytes_remaining := body_length_of type byte incoming,
             buffer := Some (b\<lparr>offset := 0, layer_specific := 0,
                               event := outbound_event_types ! nat (PACKET_TYPE_TO_INDEX type),
                               data := memcpy (data b) ((preamble incoming)(unat (index incoming) := byte))
                                         (unat (index incoming + 1))\<rparr>),
             state := (if body_length_of type byte incoming > 0 then BODY else FINISHED)\<rparr>,
          s\<lparr>alloc_calls := Suc (alloc_calls s)\<rparr>)"
proof (cases "type = DATA_TYPE_ACL")
  case True
  with assms show ?thesis
    by (simp add: case_PREAMBLE_def Let_def PREAMBLE_BUFFER_SIZE_def preamble_byte_def
          body_length_of_def)
next
  case False
  with assms show ?thesis
    by (simp add: case_PREAMBLE_def Let_def PREAMBLE_BUFFER_SIZE_def preamble_byte_def
          body_length_of_def)
qed

lemma case_PREAMBLE_alloc_fails:
  assumes "unat (index incoming) < 4" and "bytes_remaining incoming = 1"
    and "buffer_allocator_alloc pf (alloc_calls s)
           (BT_HDR_SIZE pf + unat (index incoming + 1) + unat (body_length_of type byte incoming)) = None"
  shows "case_PREAMBLE pf type byte (rx, incoming, s) =
     Inr ([Buffer_alloc (BT_HDR_SIZE pf + unat (index incoming + 1) +
                         unat (body_length_of type byte incoming)),
           ALOGE ''error getting buffer for incoming packet''],
          rx,
          (preamble_byte byte incoming)
            \<lparr>bytes_remaining := body_length_of type byte incoming,
             buffer := None,
             state := (if body_length_of type byte incoming = 0 then BRAND_NEW else IGNORE)\<rparr>,
          s\<lparr>alloc_calls := Suc (alloc_calls s)\<rparr>)"
proof (cases "type = DATA_TYPE_ACL")
  case True
  with assms show ?thesis
    by (simp add: case_PREAMBLE_def Let_def PREAMBLE_BUFFER_SIZE_def preamble_byte_def
          body_length_of_def)
next
  case False
  with assms show ?thesis
    by (simp add: case_PREAMBLE_def Let_def PREAMBLE_BUFFER_SIZE_def preamble_byte_def
          body_length_of_def)
qed

lemmas front_simps =
  switch_state_def case_PREAMBLE_continues case_BRAND_NEW_def PACKET_TYPE_TO_INDEX_def
  preamble_sizes_def preamble_front_def preamble_byte_def

lemma loop_front_event:
  "state incoming = BRAND_NEW \<Longrightarrow>
     hal_says_data_ready_loop pf DATA_TYPE_EVENT ([a], incoming, s) =
       Inr ([], [], preamble_front DATA_TYPE_EVENT [a] incoming, s)"
  by (simp add: front_simps)

lemma loop_front_sco:
  "state incoming = BRAND_NEW \<Longrightarrow>
     hal_says_data_ready_loop pf DATA_TYPE_SCO ([a, b], incoming, s) =
       Inr ([], [], preamble_front DATA_TYPE_SCO [a, b] incoming, s)"
  by (simp add: front_simps)

lemma loop_front_acl:
  "state incoming = BRAND_NEW \<Longrightarrow>
     hal_says_data_ready_loop pf DATA_TYPE_ACL ([a, b, c], incoming, s) =
       Inr ([], [], preamble_front DATA_TYPE_ACL [a, b, c] incoming, s)"
  by (simp add: front_simps)

lemma front_event:
  "state (preamble_front DATA_TYPE_EVENT [a] incoming) = PREAMBLE \<and>
   index (preamble_front DATA_TYPE_EVENT [a] incoming) = 1 \<and>
   bytes_remaining (preamble_front DATA_TYPE_EVENT [a] incoming) = 1 \<and>
   preamble (preamble_front DATA_TYPE_EVENT [a] incoming) = (\<lambda>_. 0)(0 := a)"
  by (simp add: front_simps)

lemma front_sco:
  "state (preamble_front DATA_TYPE_SCO [a, b] incoming) = PREAMBLE \<and>
   index (preamble_front DATA_TYPE_SCO [a, b] incoming) = 2 \<and>
   bytes_remaining (preamble_front DATA_TYPE_SCO [a, b] incoming) = 1 \<and>
   preamble (preamble_front DATA_TYPE_SCO [a, b] incoming) = (\<lambda>_. 0)(0 := a, 1 := b)"
  by (simp add: front_simps)

lemma front_acl:
  "state (preamble_front DATA_TYPE_ACL [a, b, c] incoming) = PREAMBLE \<and>
   index (preamble_front DATA_TYPE_ACL [a, b, c] incoming) = 3 \<and>
   bytes_remaining (preamble_front DATA_TYPE_ACL [a, b, c] incoming) = 1 \<and>
   preamble (preamble_front DATA_TYPE_ACL [a, b, c] incoming) = (\<lambda>_. 0)(0 := a, 1 := b, 2 := c)"
  by (simp add: front_simps)

lemma word16_pos_ucast: "(0 < (ucast (l :: 8 word) :: 16 word)) = (0 < unat l)"
  by (simp add: word_greater_zero_iff ucast_8_16_eq_0 unat_gt_0)

lemma word16_pos_unat: "(0 < (w :: 16 word)) = (0 < unat w)"
  by (simp add: word_greater_zero_iff unat_gt_0)

lemma preamble_done_event:
  assumes "state incoming = BRAND_NEW"
    and "buffer_allocator_alloc pf (alloc_calls s) (BT_HDR_SIZE pf + 2 + unat l) = Some b"
  shows "preamble_done pf DATA_TYPE_EVENT [a, l] (unat l) rx incoming s"
proof -
  let ?F = "preamble_front DATA_TYPE_EVENT [a] incoming"
  note f = front_event[of a incoming]
  have bl: "body_length_of DATA_TYPE_EVENT l ?F = ucast l" by (simp add: body_length_of_def)
  have sw: "switch_state pf DATA_TYPE_EVENT l (rx, ?F, s) = case_PREAMBLE pf DATA_TYPE_EVENT l (rx, ?F, s)"
    using f by (simp add: switch_state_def)
  have al: "buffer_allocator_alloc pf (alloc_calls s)
      (BT_HDR_SIZE pf + unat (index ?F + 1) + unat (body_length_of DATA_TYPE_EVENT l ?F)) = Some b"
    using assms(2) f by (simp add: bl unat_ucast_8_16)
  have i4: "unat (index ?F) < 4" using f by simp
  have br: "bytes_remaining ?F = 1" using f by simp
  note c = case_PREAMBLE_completes[OF i4 br al, of rx]
  show ?thesis
    unfolding preamble_done_def
    using loop_front_event[OF assms(1), of pf a s] f
    by (simp add: sw c bl unat_ucast_8_16 word16_pos_ucast inbound_tag_def
          outbound_event_types_def PACKET_TYPE_TO_INDEX_def memcpy_def less_2 preamble_byte_def)
qed

lemma preamble_done_sco:
  assumes "state incoming = BRAND_NEW"
    and "buffer_allocator_alloc pf (alloc_calls s) (BT_HDR_SIZE pf + 3 + unat l) = Some b"
  shows "preamble_done pf DATA_TYPE_SCO [a1, a2, l] (unat l) rx incoming s"
proof -
  let ?F = "preamble_front DATA_TYPE_SCO [a1, a2] incoming"
  note f = front_sco[of a1 a2 incoming]
  have bl: "body_length_of DATA_TYPE_SCO l ?F = ucast l" by (simp add: body_length_of_def)
  have sw: "switch_state pf DATA_TYPE_SCO l (rx, ?F, s) = case_PREAMBLE pf DATA_TYPE_SCO l (rx, ?F, s)"
    using f by (simp add: switch_state_def)
  have al: "buffer_allocator_alloc pf (alloc_calls s)
      (BT_HDR_SIZE pf + unat (index ?F + 1) + unat (body_length_of DATA_TYPE_SCO l ?F)) = Some b"
    using assms(2) f by (simp add: bl unat_ucast_8_16)
  have i4: "unat (index ?F) < 4" using f by simp
  have br: "bytes_remaining ?F = 1" using f by simp
  note c = case_PREAMBLE_completes[OF i4 br al, of rx]
  show ?thesis
    unfolding preamble_done_def
    using loop_front_sco[OF assms(1), of pf a1 a2 s] f
    by (simp add: sw c bl unat_ucast_8_16 word16_pos_ucast inbound_tag_def
          outbound_event_types_def PACKET_TYPE_TO_INDEX_def memcpy_def less_3 preamble_byte_def)
qed

lemma preamble_done_acl:
  assumes "state incoming = BRAND_NEW"
    and "buffer_allocator_alloc pf (alloc_calls s)
           (BT_HDR_SIZE pf + 4 + (unat l0 + 256 * unat l1)) = Some b"
  shows "preamble_done pf DATA_TYPE_ACL [a1, a2, l0, l1] (unat l0 + 256 * unat l1) rx incoming s"
proof -
  let ?F = "preamble_front DATA_TYPE_ACL [a1, a2, l0] incoming"
  note f = front_acl[of a1 a2 l0 incoming]
  have bl: "body_length_of DATA_TYPE_ACL l1 ?F = push_bit 8 (ucast l1) OR ucast l0"
    using f by (simp add: body_length_of_def RETRIEVE_ACL_LENGTH_def)
  have sw: "switch_state pf DATA_TYPE_ACL l1 (rx, ?F, s) = case_PREAMBLE pf DATA_TYPE_ACL l1 (rx, ?F, s)"
    using f by (simp add: switch_state_def)
  have al: "buffer_allocator_alloc pf (alloc_calls s)
      (BT_HDR_SIZE pf + unat (index ?F + 1) + unat (body_length_of DATA_TYPE_ACL l1 ?F)) = Some b"
    using assms(2) f by (simp add: bl unat_le16)
  have i4: "unat (index ?F) < 4" using f by simp
  have br: "bytes_remaining ?F = 1" using f by simp
  note c = case_PREAMBLE_completes[OF i4 br al, of rx]
  show ?thesis
    unfolding preamble_done_def
    using loop_front_acl[OF assms(1), of pf a1 a2 l0 s] f
    by (simp add: sw c bl unat_le16 word16_pos_unat inbound_tag_def
          outbound_event_types_def PACKET_TYPE_TO_INDEX_def memcpy_def less_4 preamble_byte_def)
qed

section \<open>Failing allocations\<close>

lemma prepend_Nil_result:
  "(case r of Inl e \<Rightarrow> Inl e | Inr (eff2, st2) \<Rightarrow> Inr ([] @ eff2, st2)) =
     (r :: error + (effect list \<times> receive_loop_state))"
  by (auto split: sum.splits)

lemma loop_front_event_rest:
  "state incoming = BRAND_NEW \<Longrightarrow>
     hal_says_data_ready_loop pf DATA_TYPE_EVENT (a # rest, incoming, s) =
       hal_says_data_ready_loop pf DATA_TYPE_EVENT
         (rest, preamble_front DATA_TYPE_EVENT [a] incoming, s)"
  by (simp add: front_simps prepend_Nil_result[simplified])

lemma loop_front_sco_rest:
  "state incoming = BRAND_NEW \<Longrightarrow>
     hal_says_data_ready_loop pf DATA_TYPE_SCO (a # b # rest, incoming, s) =
       hal_says_data_ready_loop pf DATA_TYPE_SCO
         (rest, preamble_front DATA_TYPE_SCO [a, b] incoming, s)"
  by (simp add: front_simps prepend_Nil_result[simplified])

lemma loop_front_acl_rest:
  "state incoming = BRAND_NEW \<Longrightarrow>
     hal_says_data_ready_loop pf DATA_TYPE_ACL (a # b # c # rest, incoming, s) =
       hal_says_data_ready_loop pf DATA_TYPE_ACL
         (rest, preamble_front DATA_TYPE_ACL [a, b, c] incoming, s)"
  by (simp add: front_simps prepend_Nil_result[simplified])

lemma unat_Suc_dec: "unat (w :: 16 word) = Suc n \<Longrightarrow> unat (w - 1) = n"
  by (metis diff_Suc_1 unat_minus_one unat_eq_zero nat.distinct(1))

lemma loop_ignore_partial:
  "state incoming = IGNORE \<Longrightarrow> length bs < unat (bytes_remaining incoming) \<Longrightarrow>
     hal_says_data_ready_loop pf type (bs, incoming, s) =
       Inr ([], [], incoming\<lparr>bytes_remaining := bytes_remaining incoming - of_nat (length bs)\<rparr>, s)"
proof (induction bs arbitrary: incoming)
  case Nil
  then show ?case by simp
next
  case (Cons b bs)
  let ?inc1 = "incoming\<lparr>bytes_remaining := bytes_remaining incoming - 1\<rparr>"
  from Cons.prems(2) obtain n where n: "unat (bytes_remaining incoming) = Suc n" "length bs < n"
    by (cases "unat (bytes_remaining incoming)") auto
  then have u1: "unat (bytes_remaining incoming - 1) = n" by (simp add: unat_Suc_dec)
  with n have nz: "bytes_remaining incoming - 1 \<noteq> 0" by (auto simp: unat_eq_zero[symmetric])
  have sw: "switch_state pf type b (bs, incoming, s) = Inr ([], bs, ?inc1, s)"
    using Cons.prems(1) nz by (simp add: switch_state_def case_IGNORE_def Let_def)
  have st: "state ?inc1 = IGNORE" using Cons.prems(1) by simp
  have "length bs < unat (bytes_remaining ?inc1)" using u1 n by simp
  from Cons.IH[OF st this] sw st show ?case
    by (simp add: prepend_Nil_result[simplified] diff_diff_eq add.commute)
qed

lemma loop_ignore_drains:
  "state incoming = IGNORE \<Longrightarrow> unat (bytes_remaining incoming) = length body \<Longrightarrow> body \<noteq> [] \<Longrightarrow>
     hal_says_data_ready_loop pf type (body @ extra, incoming, s) =
       hal_says_data_ready_loop pf type
         (extra, incoming\<lparr>bytes_remaining := 0, state := BRAND_NEW\<rparr>, s)"
proof (induction body arbitrary: incoming)
  case Nil
  then show ?case by simp
next
  case (Cons b bs)
  let ?inc1 = "incoming\<lparr>bytes_remaining := bytes_remaining incoming - 1\<rparr>"
  from Cons.prems(2) have u1: "unat (bytes_remaining incoming - 1) = length bs"
    by (simp add: unat_Suc_dec)
  show ?case
  proof (cases "bs = []")
    case True
    with u1 have z: "bytes_remaining incoming - 1 = 0" by (simp add: unat_eq_zero[symmetric])
    have sw: "switch_state pf type b (extra, incoming, s) =
         Inr ([], extra, incoming\<lparr>bytes_remaining := 0, state := BRAND_NEW\<rparr>, s)"
      using Cons.prems(1) z by (simp add: switch_state_def case_IGNORE_def Let_def)
    show ?thesis using True sw by (simp add: prepend_Nil_result[simplified])
  next
    case False
    with u1 have nz: "bytes_remaining incoming - 1 \<noteq> 0" by (auto simp: unat_eq_zero[symmetric])
    have sw: "switch_state pf type b (bs @ extra, incoming, s) = Inr ([], bs @ extra, ?inc1, s)"
      using Cons.prems(1) nz by (simp add: switch_state_def case_IGNORE_def Let_def)
    have st: "state ?inc1 = IGNORE" using Cons.prems(1) by simp
    have "unat (bytes_remaining ?inc1) = length bs" using u1 by simp
    from Cons.IH[OF st this False] sw st show ?thesis
      by (simp add: prepend_Nil_result[simplified])
  qed
qed

lemma alloc_failed_last_byte:
  assumes F: "state F = PREAMBLE" "unat (index F) < 4" "bytes_remaining F = 1"
    and n: "unat (index F + 1) = length ps"
    and BL: "unat (body_length_of type l F) = length body"
    and al: "buffer_allocator_alloc pf (alloc_calls s)
               (BT_HDR_SIZE pf + length ps + length body) = None"
  shows "alloc_failed pf type ps [l] body F s"
proof -
  define bl where "bl = body_length_of type l F"
  define inc1 where
    "inc1 = (preamble_byte l F)\<lparr>bytes_remaining := bl, buffer := None,
               state := (if bl = 0 then BRAND_NEW else IGNORE)\<rparr>"
  define E where "E = [Buffer_alloc (BT_HDR_SIZE pf + length ps + length body),
                       ALOGE ''error getting buffer for incoming packet'']"
  define s1 where "s1 = s\<lparr>alloc_calls := Suc (alloc_calls s)\<rparr>"
  have al': "buffer_allocator_alloc pf (alloc_calls s)
      (BT_HDR_SIZE pf + unat (index F + 1) + unat (body_length_of type l F)) = None"
    using al n BL by simp
  have sw: "switch_state pf type l (rx, F, s) = Inr (E, rx, inc1, s1)" for rx
    using case_PREAMBLE_alloc_fails[OF F(2,3) al', of rx] F(1) n BL
    by (simp add: switch_state_def E_def inc1_def s1_def bl_def)
  have ubl: "unat bl = length body" using BL by (simp add: bl_def)
  have blz: "bl = 0 \<longleftrightarrow> body = []" using ubl by (simp add: unat_eq_zero[symmetric])
  have nf: "state inc1 \<noteq> FINISHED" by (simp add: inc1_def)
  have step: "hal_says_data_ready_loop pf type (l # rx, F, s) =
      (case hal_says_data_ready_loop pf type (rx, inc1, s1) of
         Inl e \<Rightarrow> Inl e | Inr (eff, st) \<Rightarrow> Inr (E @ eff, st))" for rx
    using sw[of rx] nf by simp
  have g1: "hal_says_data_ready_loop pf type ([l], F, s) = Inr (E, [], inc1, s1)"
    by (simp add: step del: hal_says_data_ready_loop.simps(2))
  have props: "buffer inc1 = None \<and> unat (bytes_remaining inc1) = length body \<and>
        state inc1 = (if body = [] then BRAND_NEW else IGNORE)"
    using ubl blz by (simp add: inc1_def)
  have g2: "hal_says_data_ready_loop pf type ([l] @ take k body, F, s) =
      Inr (E, [], inc1\<lparr>bytes_remaining := bytes_remaining inc1 - of_nat k\<rparr>, s1)"
    if k: "k < length body" for k
  proof -
    from k have "body \<noteq> []" by auto
    with props have st: "state inc1 = IGNORE" by simp
    have lt: "length (take k body) < unat (bytes_remaining inc1)" using props k by simp
    have lk: "min (length body) k = k" using k by simp
    from loop_ignore_partial[OF st lt, of pf type s1] show ?thesis
      by (simp add: step lk del: hal_says_data_ready_loop.simps(2))
  qed
  have g3: "hal_says_data_ready_loop pf type ([l] @ body @ extra, F, s) =
      (case hal_says_data_ready_loop pf type
               (extra, inc1\<lparr>bytes_remaining := 0, state := BRAND_NEW\<rparr>, s1) of
         Inl e \<Rightarrow> Inl e | Inr (eff, st) \<Rightarrow> Inr (E @ eff, st))" for extra
  proof (cases "body = []")
    case True
    with props blz have "inc1\<lparr>bytes_remaining := 0, state := BRAND_NEW\<rparr> = inc1"
      by (simp add: inc1_def)
    with True show ?thesis by (simp add: step del: hal_says_data_ready_loop.simps(2))
  next
    case False
    with props have st: "state inc1 = IGNORE" by simp
    from props have u: "unat (bytes_remaining inc1) = length body" by simp
    from loop_ignore_drains[OF st u False, of pf type extra s1] show ?thesis
      by (simp add: step del: hal_says_data_ready_loop.simps(2))
  qed
  show ?thesis
    unfolding alloc_failed_def
    apply (rule exI[of _ inc1])
    using g1 props g2 g3 unfolding E_def s1_def by blast
qed

lemma alloc_failed_shift:
  assumes "\<And>X. hal_says_data_ready_loop pf type (ps @ X, incoming, s) =
               hal_says_data_ready_loop pf type ([l] @ X, F, s)"
    and "alloc_failed pf type ps [l] body F s"
  shows "alloc_failed pf type ps ps body incoming s"
proof -
  from assms(1)[of "[]"] have e: "hal_says_data_ready_loop pf type (ps, incoming, s) =
               hal_says_data_ready_loop pf type ([l], F, s)" by simp
  from assms(2) show ?thesis
    unfolding alloc_failed_def by (simp only: assms(1) e)
qed

section \<open>Command credits\<close>

lemma filter_incoming_event_credits:
  "filter_incoming_event packet s = (b, eff, s') \<Longrightarrow>
     command_credits s' =
       (if data packet 0 = 0x0E then uint (data packet 2)
        else if data packet 0 = 0x0F then uint (data packet 3)
        else command_credits s)"
  by (auto simp: filter_incoming_event_def Let_def get_waiting_command_def STREAM_TO_UINT8_def
        HCI_COMMAND_COMPLETE_EVT_def HCI_COMMAND_STATUS_EVT_def
      split: if_splits prod.splits)

lemma credits_replaced_prepend: "credits_replaced eff c \<Longrightarrow> credits_replaced (eff0 @ eff) c"
  by (auto simp: credits_replaced_def)

lemma finished_block_credits:
  assumes "finished_block type (rx, incoming, s) = Inr (eff, rx', inc', s')"
  shows "command_credits s' = command_credits s \<or>
         (type = DATA_TYPE_EVENT \<and> credits_replaced eff (command_credits s'))"
proof -
  from finished_block_result[OF assms] obtain b mid where
    r: "eff = Btsnoop_capture (b\<lparr>len := index incoming\<rparr>) True # mid @ [Hal_packet_finished type]"
       "type \<noteq> DATA_TYPE_EVENT \<longrightarrow> s' = s"
       "type = DATA_TYPE_EVENT \<longrightarrow>
          s' = snd (snd (filter_incoming_event (b\<lparr>len := index incoming\<rparr>) s))"
    by blast
  show ?thesis
  proof (cases "type = DATA_TYPE_EVENT")
    case False
    with r show ?thesis by simp
  next
    case True
    let ?p = "b\<lparr>len := index incoming\<rparr>"
    from True r have s': "s' = snd (snd (filter_incoming_event ?p s))" by simp
    have "filter_incoming_event ?p s =
           (fst (filter_incoming_event ?p s), fst (snd (filter_incoming_event ?p s)), s')"
      using s' by simp
    from filter_incoming_event_credits[OF this]
    have c: "command_credits s' =
       (if data ?p 0 = 0x0E then uint (data ?p 2)
        else if data ?p 0 = 0x0F then uint (data ?p 3)
        else command_credits s)" .
    show ?thesis
    proof (cases "data ?p 0 = 0x0E \<or> data ?p 0 = 0x0F")
      case False
      with c show ?thesis by simp
    next
      case T2: True
      have "credits_replaced eff (command_credits s')"
        unfolding credits_replaced_def
        apply (rule exI[of _ ?p])
        using r(1) c T2 by auto
      with True show ?thesis by simp
    qed
  qed
qed

lemma loop_credits:
  "hal_says_data_ready_loop pf type (rx, incoming, s) = Inr (eff, rx', inc', s') \<Longrightarrow>
     command_credits s' = command_credits s \<or>
     (type = DATA_TYPE_EVENT \<and> credits_replaced eff (command_credits s'))"
proof (induction pf type "(rx, incoming, s)" arbitrary: rx incoming s eff rx' inc' s'
       rule: hal_says_data_ready_loop.induct)
  case (1 pf type incoming s)
  then show ?case by auto
next
  case (2 pf type byte rx incoming s)
  from "2.prems" obtain eff1 rx1 inc1 s1 where
    sw: "switch_state pf type byte (rx, incoming, s) = Inr (eff1, rx1, inc1, s1)"
    by (auto split: sum.splits)
  from switch_state_result[OF sw] have s1: "command_credits s1 = command_credits s" by auto
  show ?case
  proof (cases "state inc1 = FINISHED")
    case True
    with "2.prems" sw obtain eff2 where
      pf: "finished_block type (rx1, inc1, s1) = Inr (eff2, rx', inc', s')" and e: "eff = eff1 @ eff2"
      by (auto split: sum.splits)
    from finished_block_credits[OF pf] s1 e show ?thesis
      by (auto intro: credits_replaced_prepend)
  next
    case False
    with "2.prems" sw obtain eff2 where
      lp: "hal_says_data_ready_loop pf type (rx1, inc1, s1) = Inr (eff2, rx', inc', s')" and
      e: "eff = eff1 @ eff2"
      by (auto split: sum.splits)
    from "2.hyps"[OF sw refl refl refl False lp] s1 e show ?thesis
      by (auto intro: credits_replaced_prepend)
  qed
qed

lemma hal_says_data_ready_credits:
  assumes "hal_says_data_ready pf type s = Inr (eff, s')"
  shows "command_credits s' = command_credits s \<or>
     (type = DATA_TYPE_EVENT \<and> credits_replaced eff (command_credits s'))"
proof -
  from assms obtain rx1 inc1 s1 i where
    lp: "hal_says_data_ready_loop pf type (hal_rx s type, incoming_packets s i, s) =
           Inr (eff, rx1, inc1, s1)" and
    s': "command_credits s' = command_credits s1"
    by (auto simp: hal_says_data_ready_def Let_def split: if_splits sum.splits)
  from loop_credits[OF lp] s' show ?thesis by simp
qed

lemma start_up_credits: "command_credits (snd (snd (start_up r s))) = 1"
  by (simp add: start_up_def start_up_error_def shut_down_def Let_def)

lemma step_credits:
  assumes "step pf op s = Inr (eff, s')"
  shows "command_credits s' = command_credits s \<or>
     (\<exists>r. op = Op_start_up r \<and> command_credits s' = 1) \<or>
     (op = Op_event_command_ready \<and> 0 < command_credits s \<and>
        command_credits s' = command_credits s - 1) \<or>
     (op = Op_hal_says_data_ready DATA_TYPE_EVENT \<and> credits_replaced eff (command_credits s'))"
proof (cases op)
  case (Op_start_up r)
  with assms have "s' = snd (snd (start_up r s))" by auto
  with Op_start_up start_up_credits[of r s] show ?thesis by simp
next
  case Op_shut_down
  with assms show ?thesis by (auto simp: shut_down_def split: if_splits)
next
  case (Op_transmit_command ok cmd ccb scb ctx)
  with assms show ?thesis by (auto simp: transmit_command_def Let_def split: if_splits)
next
  case (Op_transmit_downward ok tag packet)
  with assms show ?thesis
    by (auto simp: transmit_downward_def transmit_command_def Let_def split: if_splits)
next
  case Op_event_command_ready
  with assms show ?thesis
    by (auto simp: event_command_ready_def Let_def split: if_splits list.splits)
next
  case Op_event_packet_ready
  with assms show ?thesis by (auto simp: event_packet_ready_def split: list.splits)
next
  case (Op_firmware_config_callback success)
  with assms show ?thesis by (auto simp: firmware_config_callback_def)
next
  case (Op_hal_receives type bs)
  with assms show ?thesis by auto
next
  case (Op_hal_says_data_ready type)
  with assms have "hal_says_data_ready pf type s = Inr (eff, s')" by simp
  from hal_says_data_ready_credits[OF this] Op_hal_says_data_ready show ?thesis by auto
qed

lemma credits_replaced_nonneg: "credits_replaced eff c \<Longrightarrow> 0 \<le> c \<and> c < 256"
  unfolding credits_replaced_def
  using uint_bounded[where 'a=8] by (auto simp: uint_ge_0)

lemma step_credits_nonneg:
  assumes "0 \<le> command_credits s" and "step pf op s = Inr (eff, s')"
  shows "0 \<le> command_credits s'"
  using step_credits[OF assms(2)] assms(1) credits_replaced_nonneg[of eff "command_credits s'"]
  by auto

lemma run_credits_nonneg:
  "0 \<le> command_credits s \<Longrightarrow> run pf ops s = Inr (eff, s') \<Longrightarrow> 0 \<le> command_credits s'"
proof (induction ops arbitrary: s eff)
  case Nil
  then show ?case by simp
next
  case (Cons op ops)
  from Cons.prems(2) obtain eff1 s1 eff2 where
    st: "step pf op s = Inr (eff1, s1)" and r: "run pf ops s1 = Inr (eff2, s')"
    by (auto split: sum.splits)
  from step_credits_nonneg[OF Cons.prems(1) st] have "0 \<le> command_credits s1" .
  from Cons.IH[OF this r] show ?case .
qed

section \<open>Calls and the stored context\<close>

text \<open>
  The loop does not read \<open>incoming_packets\<close> or the HAL's buffers from the module state,
  so a call is its loop on the stored context and the stored bytes, with the context and
  the bytes left over written back.
\<close>


lemma prepend_effects_Nil [simp]: "prepend_effects [] r = r"
  by (auto simp: prepend_effects_def split: sum.splits)

lemma prepend_effects_Inr [simp]: "prepend_effects e (Inr (eff, st)) = Inr (e @ eff, st)"
  by (simp add: prepend_effects_def)

lemma prepend_effects_Inl [simp]: "prepend_effects e (Inl x) = Inl x"
  by (simp add: prepend_effects_def)

lemma prepend_effects_append:
  "prepend_effects (a @ b) r = prepend_effects a (prepend_effects b r)"
  by (auto simp: prepend_effects_def split: sum.splits)

lemma loop_step:
  "hal_says_data_ready_loop pf type (byte # rx, incoming, s) =
     (case switch_state pf type byte (rx, incoming, s) of
        Inl e \<Rightarrow> Inl e
      | Inr (eff, rx1, inc1, s1) \<Rightarrow>
          if state inc1 = FINISHED then prepend_effects eff (finished_block type (rx1, inc1, s1))
          else prepend_effects eff (hal_says_data_ready_loop pf type (rx1, inc1, s1)))"
  by (simp add: prepend_effects_def split: sum.splits)

lemma get_waiting_command_incoming:
  "get_waiting_command op (s\<lparr>incoming_packets := p\<rparr>) =
     (case get_waiting_command op s of (r, s') \<Rightarrow> (r, s'\<lparr>incoming_packets := p\<rparr>))"
  by (simp add: get_waiting_command_def split: prod.splits)

lemma restart_incoming [simp]:
  "restart_command_timeout_alarm (s\<lparr>incoming_packets := p\<rparr>) = restart_command_timeout_alarm s"
  by (simp add: restart_command_timeout_alarm_def)

lemma intercepted_incoming [simp]:
  "intercepted packet code w (s\<lparr>incoming_packets := p\<rparr>) = intercepted packet code w s"
  by (simp add: intercepted_def)

lemma filter_incoming_event_incoming:
  "filter_incoming_event packet (s\<lparr>incoming_packets := p\<rparr>) =
     (case filter_incoming_event packet s of (b, eff, s') \<Rightarrow> (b, eff, s'\<lparr>incoming_packets := p\<rparr>))"
proof -
  have c: "\<And>c. (s\<lparr>incoming_packets := p\<rparr>)\<lparr>command_credits := c\<rparr> =
              (s\<lparr>command_credits := c\<rparr>)\<lparr>incoming_packets := p\<rparr>"
    by simp
  show ?thesis
    unfolding filter_incoming_event_def Let_def c get_waiting_command_incoming
    by (simp split: prod.splits)
qed

lemma finished_block_frame_update:
  "finished_block type (rx, incoming, s\<lparr>incoming_packets := p, hal_rx := h\<rparr>) =
     with_frame p h (finished_block type (rx, incoming, s))"
  by (simp add: finished_block_def Let_def with_frame_def filter_incoming_event_incoming
        filter_incoming_event_hal_rx
      split: option.split prod.split)

lemma case_PREAMBLE_frame_update:
  "case_PREAMBLE pf type byte (rx, incoming, s\<lparr>incoming_packets := p, hal_rx := h\<rparr>) =
     with_frame p h (case_PREAMBLE pf type byte (rx, incoming, s))"
  by (simp add: case_PREAMBLE_def Let_def with_frame_def split: option.split)

lemma case_BODY_frame_update:
  "case_BODY byte (rx, incoming, s\<lparr>incoming_packets := p, hal_rx := h\<rparr>) =
     with_frame p h (case_BODY byte (rx, incoming, s))"
  by (simp add: case_BODY_def Let_def with_frame_def hal_read_data_def split: option.split)

lemma switch_state_frame_update:
  "switch_state pf type byte (rx, incoming, s\<lparr>incoming_packets := p, hal_rx := h\<rparr>) =
     with_frame p h (switch_state pf type byte (rx, incoming, s))"
  by (cases "state incoming")
     (simp_all add: switch_state_def case_PREAMBLE_frame_update case_BODY_frame_update,
      simp_all add: with_frame_def)

lemma with_frame_prepend:
  "with_frame p h (prepend_effects e r) = prepend_effects e (with_frame p h r)"
  by (auto simp: with_frame_def prepend_effects_def split: sum.splits)

lemma loop_frame_update:
  "hal_says_data_ready_loop pf type (rx, incoming, s\<lparr>incoming_packets := p, hal_rx := h\<rparr>) =
     with_frame p h (hal_says_data_ready_loop pf type (rx, incoming, s))"
proof (induction pf type "(rx, incoming, s)" arbitrary: rx incoming s
       rule: hal_says_data_ready_loop.induct)
  case (1 pf type incoming s)
  then show ?case by (simp add: with_frame_def)
next
  case (2 pf type byte rx incoming s)
  show ?case
  proof (cases "switch_state pf type byte (rx, incoming, s)")
    case (Inl e)
    then show ?thesis
      by (simp add: loop_step switch_state_frame_update with_frame_def
          del: hal_says_data_ready_loop.simps)
  next
    case (Inr r)
    then obtain eff1 rx1 inc1 s1 where
      sw: "switch_state pf type byte (rx, incoming, s) = Inr (eff1, rx1, inc1, s1)"
      by (cases r) auto
    have sw2: "switch_state pf type byte (rx, incoming, s\<lparr>incoming_packets := p, hal_rx := h\<rparr>) =
        Inr (eff1, rx1, inc1, s1\<lparr>incoming_packets := p, hal_rx := h\<rparr>)"
      by (simp add: switch_state_frame_update sw with_frame_def)
    show ?thesis
    proof (cases "state inc1 = FINISHED")
      case True
      then show ?thesis
        by (simp add: loop_step sw sw2 finished_block_frame_update with_frame_prepend
            del: hal_says_data_ready_loop.simps)
    next
      case False
      from "2.hyps"[OF sw refl refl refl False] False show ?thesis
        by (simp add: loop_step sw sw2 with_frame_prepend del: hal_says_data_ready_loop.simps)
    qed
  qed
qed

lemma inbound_index:
  "type \<noteq> DATA_TYPE_COMMAND \<Longrightarrow>
     \<not> (PACKET_TYPE_TO_INBOUND_INDEX type < 0 \<or>
        INBOUND_PACKET_TYPE_COUNT \<le> PACKET_TYPE_TO_INBOUND_INDEX type)"
  by (cases type) (simp_all add: PACKET_TYPE_TO_INBOUND_INDEX_def INBOUND_PACKET_TYPE_COUNT_def)

lemma call_unfold:
  "type \<noteq> DATA_TYPE_COMMAND \<Longrightarrow>
     hal_says_data_ready pf type s =
       store_result type
         (hal_says_data_ready_loop pf type
            (hal_rx s type, incoming_packets s (nat (PACKET_TYPE_TO_INBOUND_INDEX type)), s))"
  using inbound_index[of type]
  by (simp add: hal_says_data_ready_def Let_def store_result_def store_context_def
      split: sum.splits)

lemma store_result_prepend:
  "store_result type (prepend_effects e r) = prepend_effects e (store_result type r)"
  by (auto simp: store_result_def prepend_effects_def split: sum.splits)

lemma store_context_read [simp]:
  "hal_rx (store_context type incoming rx s) type = rx"
  "incoming_packets (store_context type incoming rx s) (nat (PACKET_TYPE_TO_INBOUND_INDEX type)) = incoming"
  by (simp_all add: store_context_def)

lemma store_result_loop_stored:
  "store_result type
     (hal_says_data_ready_loop pf type (rx, incoming, store_context type a b s)) =
   store_result type (hal_says_data_ready_loop pf type (rx, incoming, s))"
proof (cases "hal_says_data_ready_loop pf type (rx, incoming, s)")
  case (Inl e)
  then show ?thesis
    by (simp add: store_context_def loop_frame_update with_frame_def store_result_def)
next
  case (Inr r)
  then obtain eff rx1 inc1 s1 where
    l: "hal_says_data_ready_loop pf type (rx, incoming, s) = Inr (eff, rx1, inc1, s1)"
    by (cases r) auto
  from loop_frame[OF l] have "incoming_packets s1 = incoming_packets s" "hal_rx s1 = hal_rx s"
    by simp_all
  then show ?thesis
    by (simp add: store_context_def loop_frame_update with_frame_def store_result_def l)
qed

lemma call_stored:
  "type \<noteq> DATA_TYPE_COMMAND \<Longrightarrow>
     hal_says_data_ready pf type (store_context type incoming rx s) =
       store_result type (hal_says_data_ready_loop pf type (rx, incoming, s))"
  by (simp add: call_unfold store_result_loop_stored)

lemma store_context_same:
  "incoming_packets s (nat (PACKET_TYPE_TO_INBOUND_INDEX type)) = incoming \<Longrightarrow>
   hal_rx s type = rx \<Longrightarrow> store_context type incoming rx s = s"
  by (auto simp: store_context_def)

lemma call_continues:
  assumes "type \<noteq> DATA_TYPE_COMMAND"
    and "hal_rx s type = byte # rest"
    and "switch_state pf type byte
           (rest, incoming_packets s (nat (PACKET_TYPE_TO_INBOUND_INDEX type)), s) =
         Inr (eff1, rx1, inc1, s1)"
    and "state inc1 \<noteq> FINISHED"
  shows "hal_says_data_ready pf type s =
           prepend_effects eff1 (hal_says_data_ready pf type (store_context type inc1 rx1 s1))"
  using assms
  by (simp add: call_unfold[of type pf s] call_stored loop_step store_result_prepend
      del: hal_says_data_ready_loop.simps)

lemma call_empty:
  assumes "type \<noteq> DATA_TYPE_COMMAND" and "hal_rx s type = []"
  shows "hal_says_data_ready pf type s = Inr ([], s)"
  using assms
  by (simp add: call_unfold[of type pf s] store_result_def store_context_same)

section \<open>Bytes spread over calls\<close>

text \<open>
  Bytes that are read without a packet leaving and without a body being filled are read
  the same way however they are spread over calls.
\<close>


lemma finished_block_not_quiet:
  "finished_block type st = Inr (eff, st') \<Longrightarrow> \<not> quiet eff"
proof -
  assume a: "finished_block type st = Inr (eff, st')"
  obtain rx incoming s where st: "st = (rx, incoming, s)" by (cases st) auto
  obtain rx' inc' s' where st': "st' = (rx', inc', s')" by (cases st') auto
  from finished_block_result[OF a[unfolded st st']] show ?thesis
    by (auto simp: quiet_def)
qed

lemma case_BODY_state:
  "case_BODY byte (rx, incoming, s) = Inr (eff, rx', inc', s') \<Longrightarrow>
     state inc' = FINISHED \<or> state inc' = state incoming"
  by (auto simp: case_BODY_def Let_def hal_read_data_def split: option.splits)

lemma loop_body_stays:
  "hal_says_data_ready_loop pf type (rx, incoming, s) = Inr (eff, rx', inc', s') \<Longrightarrow>
     state incoming = BODY \<Longrightarrow> quiet eff \<Longrightarrow> state inc' = BODY"
proof (induction pf type "(rx, incoming, s)" arbitrary: rx incoming s eff
       rule: hal_says_data_ready_loop.induct)
  case (1 pf type incoming s)
  then show ?case by simp
next
  case (2 pf type byte rx incoming s)
  from "2.prems"(1) obtain eff1 rx1 inc1 s1 where
    sw: "switch_state pf type byte (rx, incoming, s) = Inr (eff1, rx1, inc1, s1)"
    by (auto split: sum.splits)
  with "2.prems"(2) have "case_BODY byte (rx, incoming, s) = Inr (eff1, rx1, inc1, s1)"
    by (simp add: switch_state_def)
  from case_BODY_state[OF this] "2.prems"(2)
  have st: "state inc1 = FINISHED \<or> state inc1 = BODY" by simp
  show ?case
  proof (cases "state inc1 = FINISHED")
    case True
    with "2.prems"(1) sw obtain eff2 st2 where
      "finished_block type (rx1, inc1, s1) = Inr (eff2, st2)" "eff = eff1 @ eff2"
      by (auto split: sum.splits)
    with finished_block_not_quiet "2.prems"(3) show ?thesis by auto
  next
    case False
    with "2.prems"(1) sw obtain eff2 where
      lp: "hal_says_data_ready_loop pf type (rx1, inc1, s1) = Inr (eff2, rx', inc', s')" and
      e: "eff = eff1 @ eff2"
      by (auto split: sum.splits)
    from st False have b: "state inc1 = BODY" by simp
    from e "2.prems"(3) have q: "quiet eff2" by simp
    from "2.hyps"[OF sw refl refl refl False lp b q] show ?thesis .
  qed
qed

lemma switch_state_append_other:
  assumes "switch_state pf type byte (rx, incoming, s) = Inr (eff, rx', inc', s')"
    and "state incoming \<noteq> BODY"
  shows "switch_state pf type byte (rx @ extra, incoming, s) = Inr (eff, rx' @ extra, inc', s')"
proof (cases "state incoming")
  case BRAND_NEW
  with assms(1) have c: "case_PREAMBLE pf type byte (rx, case_BRAND_NEW type incoming, s) = Inr (eff, rx', inc', s')"
    by (simp add: switch_state_def)
  from case_PREAMBLE_result[OF c] have "rx' = rx" by simp
  with case_PREAMBLE_any_rx[OF c, of "rx @ extra"] BRAND_NEW show ?thesis
    by (simp add: switch_state_def)
next
  case PREAMBLE
  with assms(1) have c: "case_PREAMBLE pf type byte (rx, incoming, s) = Inr (eff, rx', inc', s')"
    by (simp add: switch_state_def)
  from case_PREAMBLE_result[OF c] have "rx' = rx" by simp
  with case_PREAMBLE_any_rx[OF c, of "rx @ extra"] PREAMBLE show ?thesis
    by (simp add: switch_state_def)
next
  case BODY
  with assms(2) show ?thesis by simp
next
  case IGNORE
  with assms(1) show ?thesis by (auto simp: switch_state_def)
next
  case FINISHED
  with assms(1) show ?thesis by (auto simp: switch_state_def)
qed

lemma loop_split:
  "hal_says_data_ready_loop pf type (xs, incoming, s) = Inr (eff, [], inc', s') \<Longrightarrow>
     quiet eff \<Longrightarrow> state inc' \<noteq> BODY \<Longrightarrow>
     hal_says_data_ready_loop pf type (xs @ ys, incoming, s) =
       prepend_effects eff (hal_says_data_ready_loop pf type (ys, inc', s'))"
proof (induction pf type "(xs, incoming, s)" arbitrary: xs incoming s eff
       rule: hal_says_data_ready_loop.induct)
  case (1 pf type incoming s)
  then show ?case by simp
next
  case (2 pf type byte rx incoming s)
  from "2.prems"(1) obtain eff1 rx1 inc1 s1 where
    sw: "switch_state pf type byte (rx, incoming, s) = Inr (eff1, rx1, inc1, s1)"
    by (auto split: sum.splits)
  have nb: "state incoming \<noteq> BODY"
    using loop_body_stays[OF "2.prems"(1) _ "2.prems"(2)] "2.prems"(3) by blast
  have nf: "state inc1 \<noteq> FINISHED"
  proof
    assume "state inc1 = FINISHED"
    with "2.prems"(1) sw obtain eff2 st2 where
      "finished_block type (rx1, inc1, s1) = Inr (eff2, st2)" "eff = eff1 @ eff2"
      by (auto split: sum.splits)
    with finished_block_not_quiet "2.prems"(2) show False by auto
  qed
  with "2.prems"(1) sw obtain eff2 where
    lp: "hal_says_data_ready_loop pf type (rx1, inc1, s1) = Inr (eff2, [], inc', s')" and
    e: "eff = eff1 @ eff2"
    by (auto split: sum.splits)
  from e "2.prems"(2) have q: "quiet eff2" by simp
  from "2.hyps"[OF sw refl refl refl nf lp q "2.prems"(3)]
  have ih: "hal_says_data_ready_loop pf type (rx1 @ ys, inc1, s1) =
              prepend_effects eff2 (hal_says_data_ready_loop pf type (ys, inc', s'))" .
  from switch_state_append_other[OF sw nb, of ys]
  have sw2: "switch_state pf type byte (rx @ ys, incoming, s) = Inr (eff1, rx1 @ ys, inc1, s1)" .
  have "hal_says_data_ready_loop pf type ((byte # rx) @ ys, incoming, s) =
          prepend_effects eff1 (hal_says_data_ready_loop pf type (rx1 @ ys, inc1, s1))"
    using sw2 nf by (simp add: loop_step del: hal_says_data_ready_loop.simps)
  with ih e show ?case by (simp add: prepend_effects_append)
qed

lemma run_append:
  "run pf (ops1 @ ops2) s =
     (case run pf ops1 s of Inl e \<Rightarrow> Inl e
      | Inr (eff, s1) \<Rightarrow> prepend_effects eff (run pf ops2 s1))"
proof (induction ops1 arbitrary: s)
  case Nil
  then show ?case by simp
next
  case (Cons op ops1)
  show ?case
  proof (cases "step pf op s")
    case (Inl e)
    then show ?thesis by simp
  next
    case (Inr r)
    then obtain eff1 s1 where st: "step pf op s = Inr (eff1, s1)" by (cases r) auto
    show ?thesis
      using Cons.IH[of s1] st
      by (auto simp: prepend_effects_def split: sum.splits)
  qed
qed

lemma receive_stored:
  "step pf (Op_hal_receives type c) (store_context type incoming rx s) =
     Inr ([], store_context type incoming (rx @ c) s)"
  by (simp add: store_context_def)

lemma silent_Inr:
  "silent r \<Longrightarrow> \<exists>eff inc' s'. r = Inr (eff, [], inc', s') \<and> quiet eff \<and> state inc' \<noteq> BODY"
  by (cases r) (auto simp: silent_def)

lemma delivery_silent:
  assumes "type \<noteq> DATA_TYPE_COMMAND"
    and "\<forall>k\<le>length (concat chunks).
           silent (hal_says_data_ready_loop pf type (take k (concat chunks), incoming, s))"
  shows "run pf (delivery type chunks) (store_context type incoming [] s) =
           store_result type (hal_says_data_ready_loop pf type (concat chunks, incoming, s))"
  using assms(2)
proof (induction chunks arbitrary: incoming s)
  case Nil
  then show ?case by (simp add: delivery_def store_result_def)
next
  case (Cons c cs)
  have "silent (hal_says_data_ready_loop pf type (c, incoming, s))"
    using Cons.prems[rule_format, of "length c"] by simp
  from silent_Inr[OF this] obtain e1 inc1 s1 where
    l1: "hal_says_data_ready_loop pf type (c, incoming, s) = Inr (e1, [], inc1, s1)" and
    q1: "quiet e1" and nb: "state inc1 \<noteq> BODY"
    by blast
  note sp = loop_split[OF l1 q1 nb]
  have pre: "\<forall>k\<le>length (concat cs).
           silent (hal_says_data_ready_loop pf type (take k (concat cs), inc1, s1))"
  proof (intro allI impI)
    fix k assume k: "k \<le> length (concat cs)"
    then have "silent (hal_says_data_ready_loop pf type (c @ take k (concat cs), incoming, s))"
      using Cons.prems[rule_format, of "length c + k"] by simp
    then have "silent (prepend_effects e1
                 (hal_says_data_ready_loop pf type (take k (concat cs), inc1, s1)))"
      by (simp only: sp)
    then show "silent (hal_says_data_ready_loop pf type (take k (concat cs), inc1, s1))"
      by (cases "hal_says_data_ready_loop pf type (take k (concat cs), inc1, s1)")
         (auto simp: silent_def)
  qed
  note ih = Cons.IH[OF pre]
  have call: "hal_says_data_ready pf type (store_context type incoming c s) =
      Inr (e1, store_context type inc1 [] s1)"
    using l1 by (simp add: call_stored[OF assms(1)] store_result_def)
  have "run pf (delivery type (c # cs)) (store_context type incoming [] s) =
      prepend_effects e1 (run pf (delivery type cs) (store_context type inc1 [] s1))"
    using call
    by (simp add: delivery_def store_context_def prepend_effects_def split: sum.splits)
  also have "\<dots> = store_result type (hal_says_data_ready_loop pf type (c @ concat cs, incoming, s))"
    by (simp only: ih sp store_result_prepend)
  finally show ?case by simp
qed

section \<open>Handing a packet over\<close>

text \<open>
  The block for \<open>FINISHED\<close> is the hand-over of the packet; the byte that ends a body
  leads to it, and a byte inside a body is stored with the bytes that follow it.
\<close>


lemma finished_block_hand_over:
  "buffer incoming = Some b \<Longrightarrow>
     finished_block type (rx, incoming, s) =
       Inr (fst (hand_over type (b\<lparr>len := index incoming\<rparr>) s), rx,
            incoming\<lparr>buffer := None, state := BRAND_NEW\<rparr>,
            snd (hand_over type (b\<lparr>len := index incoming\<rparr>) s))"
  by (simp add: finished_block_def hand_over_def Let_def case_prod_beta)

lemma call_finishes:
  assumes "type \<noteq> DATA_TYPE_COMMAND"
    and "hal_rx s type = byte # rest"
    and "switch_state pf type byte
           (rest, incoming_packets s (nat (PACKET_TYPE_TO_INBOUND_INDEX type)), s) =
         Inr (eff1, rx1, inc1, s1)"
    and "state inc1 = FINISHED" and "buffer inc1 = Some b"
  shows "hal_says_data_ready pf type s =
           Inr (eff1 @ fst (hand_over type (b\<lparr>len := index inc1\<rparr>) s1),
                store_context type (inc1\<lparr>buffer := None, state := BRAND_NEW\<rparr>) rx1
                  (snd (hand_over type (b\<lparr>len := index inc1\<rparr>) s1)))"
  using assms
  by (simp add: call_unfold[of type pf s] loop_step store_result_def
        finished_block_hand_over
      del: hal_says_data_ready_loop.simps)

lemma word16_of_unat: "unat (w :: 16 word) = n \<Longrightarrow> w = of_nat n"
  by auto

lemma case_BODY_completes:
  assumes "buffer incoming = Some b" and "unat (bytes_remaining incoming) = Suc (length ys)"
  shows "case_BODY y (ys @ extra, incoming, s) =
     Inr ([], extra,
          incoming\<lparr>buffer := Some (b\<lparr>data := store_bytes ((data b)(unat (index incoming) := y))
                                            (unat (index incoming + 1)) ys\<rparr>),
                   index := index incoming + 1 + of_nat (length ys),
                   bytes_remaining := 0,
                   state := FINISHED\<rparr>, s)"
proof -
  from assms(2) have u: "unat (bytes_remaining incoming - 1) = length ys"
    by (rule unat_Suc_dec)
  have z: "bytes_remaining incoming - 1 = of_nat (length ys)"
    by (rule word16_of_unat[OF u])
  have ly: "unat (of_nat (length ys) :: 16 word) = length ys"
    using u z by simp
  have h: "hal_read_data (length ys) (ys @ extra) = (ys, extra)"
    by (simp add: hal_read_data_def)
  show ?thesis
    using assms(1) by (simp add: case_BODY_def Let_def z ly h)
qed

lemma case_BODY_partial:
  assumes "buffer incoming = Some b" and "Suc (length ys) < unat (bytes_remaining incoming)"
  shows "case_BODY y (ys, incoming, s) =
     Inr ([], [],
          incoming\<lparr>buffer := Some (b\<lparr>data := store_bytes ((data b)(unat (index incoming) := y))
                                            (unat (index incoming + 1)) ys\<rparr>),
                   index := index incoming + 1 + of_nat (length ys),
                   bytes_remaining := bytes_remaining incoming - 1 - of_nat (length ys)\<rparr>, s) \<and>
     unat (bytes_remaining incoming - 1 - of_nat (length ys)) =
       unat (bytes_remaining incoming) - Suc (length ys)"
proof -
  obtain n where n: "unat (bytes_remaining incoming) = Suc n" "length ys < n"
    using assms(2) by (cases "unat (bytes_remaining incoming)") auto
  then have u: "unat (bytes_remaining incoming - 1) = n" by (simp add: unat_Suc_dec)
  have "unat (bytes_remaining incoming - 1) < 2 ^ 16"
    using unsigned_less[of "bytes_remaining incoming - 1"] by simp
  then have n16: "n < 2 ^ 16" using u by simp
  then have ly: "unat (of_nat (length ys) :: 16 word) = length ys"
    using n(2) by (simp add: unat_of_nat)
  have le: "(of_nat (length ys) :: 16 word) \<le> bytes_remaining incoming - 1"
    using ly u n(2) by (simp add: word_le_nat_alt)
  have d: "unat (bytes_remaining incoming - 1 - of_nat (length ys)) = n - length ys"
    using unat_sub[OF le] u ly by simp
  have nz: "bytes_remaining incoming - 1 \<noteq> of_nat (length ys)"
  proof
    assume "bytes_remaining incoming - 1 = of_nat (length ys)"
    then have "unat (bytes_remaining incoming - 1) = length ys" using ly by simp
    with u n(2) show False by simp
  qed
  have h: "hal_read_data n ys = (ys, [])"
    using n(2) by (simp add: hal_read_data_def)
  have "case_BODY y (ys, incoming, s) =
     Inr ([], [],
          incoming\<lparr>buffer := Some (b\<lparr>data := store_bytes ((data b)(unat (index incoming) := y))
                                            (unat (index incoming + 1)) ys\<rparr>),
                   index := index incoming + 1 + of_nat (length ys),
                   bytes_remaining := bytes_remaining incoming - 1 - of_nat (length ys)\<rparr>, s)"
    using assms(1) by (simp add: case_BODY_def Let_def u h nz)
  moreover have "unat (bytes_remaining incoming - 1 - of_nat (length ys)) =
       unat (bytes_remaining incoming) - Suc (length ys)"
    using d n by simp
  ultimately show ?thesis by (rule conjI)
qed

lemma call_body_completes:
  assumes "type \<noteq> DATA_TYPE_COMMAND"
    and "state (incoming_packets s (nat (PACKET_TYPE_TO_INBOUND_INDEX type))) = BODY"
    and "buffer (incoming_packets s (nat (PACKET_TYPE_TO_INBOUND_INDEX type))) = Some b"
    and "hal_rx s type = y # ys @ extra"
    and "unat (bytes_remaining (incoming_packets s (nat (PACKET_TYPE_TO_INBOUND_INDEX type)))) =
           Suc (length ys)"
  shows "hal_says_data_ready pf type s =
     Inr (fst (hand_over type
                 (b\<lparr>data := store_bytes
                       ((data b)(unat (index (incoming_packets s (nat (PACKET_TYPE_TO_INBOUND_INDEX type)))) := y))
                       (unat (index (incoming_packets s (nat (PACKET_TYPE_TO_INBOUND_INDEX type))) + 1)) ys,
                    len := index (incoming_packets s (nat (PACKET_TYPE_TO_INBOUND_INDEX type))) + 1 +
                           of_nat (length ys)\<rparr>) s),
          store_context type
            ((incoming_packets s (nat (PACKET_TYPE_TO_INBOUND_INDEX type)))
               \<lparr>index := index (incoming_packets s (nat (PACKET_TYPE_TO_INBOUND_INDEX type))) + 1 +
                         of_nat (length ys),
                bytes_remaining := 0,
                buffer := None,
                state := BRAND_NEW\<rparr>) extra
            (snd (hand_over type
                 (b\<lparr>data := store_bytes
                       ((data b)(unat (index (incoming_packets s (nat (PACKET_TYPE_TO_INBOUND_INDEX type)))) := y))
                       (unat (index (incoming_packets s (nat (PACKET_TYPE_TO_INBOUND_INDEX type))) + 1)) ys,
                    len := index (incoming_packets s (nat (PACKET_TYPE_TO_INBOUND_INDEX type))) + 1 +
                           of_nat (length ys)\<rparr>) s)))"
proof -
  define inc where "inc = incoming_packets s (nat (PACKET_TYPE_TO_INBOUND_INDEX type))"
  note c = case_BODY_completes[OF assms(3)[folded inc_def] assms(5)[folded inc_def], of y extra s]
  have sw: "switch_state pf type y (ys @ extra, inc, s) =
     Inr ([], extra,
          inc\<lparr>buffer := Some (b\<lparr>data := store_bytes ((data b)(unat (index inc) := y))
                                            (unat (index inc + 1)) ys\<rparr>),
                   index := index inc + 1 + of_nat (length ys),
                   bytes_remaining := 0,
                   state := FINISHED\<rparr>, s)"
    using assms(2) c by (simp add: switch_state_def inc_def)
  have "hal_says_data_ready pf type s =
           Inr ([] @ fst (hand_over type (b\<lparr>data := store_bytes ((data b)(unat (index inc) := y))
                                            (unat (index inc + 1)) ys,
                                 len := index inc + 1 + of_nat (length ys)\<rparr>) s),
                store_context type (inc\<lparr>index := index inc + 1 + of_nat (length ys),
                   bytes_remaining := 0,
                   buffer := None,
                   state := BRAND_NEW\<rparr>) extra
                  (snd (hand_over type (b\<lparr>data := store_bytes ((data b)(unat (index inc) := y))
                                            (unat (index inc + 1)) ys,
                                 len := index inc + 1 + of_nat (length ys)\<rparr>) s)))"
    using call_finishes[OF assms(1) assms(4) sw[unfolded inc_def], of "b\<lparr>data := store_bytes ((data b)(unat (index inc) := y))
                                            (unat (index inc + 1)) ys\<rparr>"]
    by (simp add: inc_def)
  then show ?thesis by (simp only: inc_def append_Nil)
qed

lemma call_body_partial:
  assumes "type \<noteq> DATA_TYPE_COMMAND"
    and "state (incoming_packets s (nat (PACKET_TYPE_TO_INBOUND_INDEX type))) = BODY"
    and "buffer (incoming_packets s (nat (PACKET_TYPE_TO_INBOUND_INDEX type))) = Some b"
    and "hal_rx s type = y # ys"
    and "Suc (length ys) <
           unat (bytes_remaining (incoming_packets s (nat (PACKET_TYPE_TO_INBOUND_INDEX type))))"
  shows "hal_says_data_ready pf type s =
     Inr ([],
          store_context type
            ((incoming_packets s (nat (PACKET_TYPE_TO_INBOUND_INDEX type)))
               \<lparr>buffer := Some (b\<lparr>data := store_bytes
                       ((data b)(unat (index (incoming_packets s (nat (PACKET_TYPE_TO_INBOUND_INDEX type)))) := y))
                       (unat (index (incoming_packets s (nat (PACKET_TYPE_TO_INBOUND_INDEX type))) + 1)) ys\<rparr>),
                index := index (incoming_packets s (nat (PACKET_TYPE_TO_INBOUND_INDEX type))) + 1 +
                         of_nat (length ys),
                bytes_remaining :=
                  bytes_remaining (incoming_packets s (nat (PACKET_TYPE_TO_INBOUND_INDEX type))) - 1 -
                  of_nat (length ys)\<rparr>) [] s)"
proof -
  define inc where "inc = incoming_packets s (nat (PACKET_TYPE_TO_INBOUND_INDEX type))"
  note c = case_BODY_partial[OF assms(3)[folded inc_def] assms(5)[folded inc_def], of y s]
  define inc1 where "inc1 = inc\<lparr>buffer := Some (b\<lparr>data := store_bytes ((data b)(unat (index inc) := y))
                                            (unat (index inc + 1)) ys\<rparr>),
                   index := index inc + 1 + of_nat (length ys),
                   bytes_remaining := bytes_remaining inc - 1 - of_nat (length ys)\<rparr>"
  have sw: "switch_state pf type y (ys, inc, s) = Inr ([], [], inc1, s)"
    using assms(2) c by (simp add: switch_state_def inc_def inc1_def)
  have nf: "state inc1 \<noteq> FINISHED" using assms(2) by (simp add: inc1_def inc_def)
  have "hal_says_data_ready pf type (store_context type inc1 [] s) =
          Inr ([], store_context type inc1 [] s)"
    by (rule call_empty[OF assms(1)]) simp
  with call_continues[OF assms(1) assms(4) sw[unfolded inc_def] nf]
  show ?thesis by (simp add: inc1_def inc_def)
qed

section \<open>A whole packet\<close>

text \<open>
  The preamble sizes by type, and a packet whose bytes are all in the HAL: one run of the
  loop reads them and hands the packet over.
\<close>


lemma unat_inc16: "unat (w :: 16 word) < 65535 \<Longrightarrow> unat (w + 1) = Suc (unat w)"
  by (simp add: unat_word_ariths)

lemma preamble_size_cases:
  "type \<noteq> DATA_TYPE_COMMAND \<Longrightarrow>
   length ps = unat (preamble_sizes ! nat (PACKET_TYPE_TO_INDEX type)) \<Longrightarrow>
     (type = DATA_TYPE_ACL \<and> (\<exists>a1 a2 l0 l1. ps = [a1, a2, l0, l1])) \<or>
     (type = DATA_TYPE_SCO \<and> (\<exists>a1 a2 l. ps = [a1, a2, l])) \<or>
     (type = DATA_TYPE_EVENT \<and> (\<exists>a l. ps = [a, l]))"
  by (cases type)
     (simp_all add: PACKET_TYPE_TO_INDEX_def preamble_sizes_def length_2 length_3 length_4)

lemma loop_front_rest:
  assumes "type \<noteq> DATA_TYPE_COMMAND" and "state incoming = BRAND_NEW"
    and "length ps = unat (preamble_sizes ! nat (PACKET_TYPE_TO_INDEX type))"
  shows "hal_says_data_ready_loop pf type (ps @ X, incoming, s) =
         hal_says_data_ready_loop pf type
           (last ps # X, preamble_front type (butlast ps) incoming, s)"
  using preamble_size_cases[OF assms(1,3)]
proof (elim disjE conjE exE)
  fix a1 a2 l0 l1 assume "type = DATA_TYPE_ACL" "ps = [a1, a2, l0, l1]"
  then show ?thesis using loop_front_acl_rest[OF assms(2), of pf a1 a2 l0 "l1 # X" s] by simp
next
  fix a1 a2 l assume "type = DATA_TYPE_SCO" "ps = [a1, a2, l]"
  then show ?thesis using loop_front_sco_rest[OF assms(2), of pf a1 a2 "l # X" s] by simp
next
  fix a l assume "type = DATA_TYPE_EVENT" "ps = [a, l]"
  then show ?thesis using loop_front_event_rest[OF assms(2), of pf a "l # X" s] by simp
qed

lemma preamble_done_any:
  assumes "type \<noteq> DATA_TYPE_COMMAND"
    and "state incoming = BRAND_NEW"
    and "length ps = unat (preamble_sizes ! nat (PACKET_TYPE_TO_INDEX type))"
    and "body = (if type = DATA_TYPE_ACL then unat (ps ! 2) + 256 * unat (ps ! 3) else unat (last ps))"
    and "buffer_allocator_alloc pf (alloc_calls s) (BT_HDR_SIZE pf + length ps + body) = Some b"
  shows "preamble_done pf type ps body rx incoming s"
  using preamble_size_cases[OF assms(1,3)]
proof (elim disjE conjE exE)
  fix a1 a2 l0 l1 assume t: "type = DATA_TYPE_ACL" and ps: "ps = [a1, a2, l0, l1]"
  have bd: "body = unat l0 + 256 * unat l1" using assms(4) ps t by simp
  have len: "length ps = 4" using ps by simp
  have al: "buffer_allocator_alloc pf (alloc_calls s)
               (BT_HDR_SIZE pf + 4 + (unat l0 + 256 * unat l1)) = Some b"
    using assms(5) len bd by simp
  show ?thesis unfolding ps bd t by (rule preamble_done_acl[OF assms(2) al])
next
  fix a1 a2 l assume t: "type = DATA_TYPE_SCO" and ps: "ps = [a1, a2, l]"
  have bd: "body = unat l" using assms(4) ps t by simp
  have len: "length ps = 3" using ps by simp
  have al: "buffer_allocator_alloc pf (alloc_calls s) (BT_HDR_SIZE pf + 3 + unat l) = Some b"
    using assms(5) len bd by simp
  show ?thesis unfolding ps bd t by (rule preamble_done_sco[OF assms(2) al])
next
  fix a l assume t: "type = DATA_TYPE_EVENT" and ps: "ps = [a, l]"
  have bd: "body = unat l" using assms(4) ps t by simp
  have len: "length ps = 2" using ps by simp
  have al: "buffer_allocator_alloc pf (alloc_calls s) (BT_HDR_SIZE pf + 2 + unat l) = Some b"
    using assms(5) len bd by simp
  show ?thesis unfolding ps bd t by (rule preamble_done_event[OF assms(2) al])
qed

lemma alloc_failed_any:
  assumes "type \<noteq> DATA_TYPE_COMMAND"
    and "state incoming = BRAND_NEW"
    and "length ps = unat (preamble_sizes ! nat (PACKET_TYPE_TO_INDEX type))"
    and "length body =
           (if type = DATA_TYPE_ACL then unat (ps ! 2) + 256 * unat (ps ! 3) else unat (last ps))"
    and "buffer_allocator_alloc pf (alloc_calls s) (BT_HDR_SIZE pf + length ps + length body) = None"
  shows "alloc_failed pf type ps ps body incoming s"
  using preamble_size_cases[OF assms(1,3)]
proof (elim disjE conjE exE)
  fix a1 a2 l0 l1 assume t: "type = DATA_TYPE_ACL" and ps: "ps = [a1, a2, l0, l1]"
  let ?F = "preamble_front DATA_TYPE_ACL [a1, a2, l0] incoming"
  note f = front_acl[of a1 a2 l0 incoming]
  have bl: "unat (body_length_of DATA_TYPE_ACL l1 ?F) = length body"
    using f assms(4) ps t
    by (simp add: body_length_of_def RETRIEVE_ACL_LENGTH_def unat_le16)
  have 1: "state ?F = PREAMBLE" "unat (index ?F) < 4" "bytes_remaining ?F = 1"
    "unat (index ?F + 1) = length ps"
    using f ps by simp_all
  have "alloc_failed pf DATA_TYPE_ACL ps [l1] body ?F s"
    using alloc_failed_last_byte[OF 1(1,2,3,4) bl] assms(5) by simp
  moreover have "hal_says_data_ready_loop pf DATA_TYPE_ACL (ps @ X, incoming, s) =
       hal_says_data_ready_loop pf DATA_TYPE_ACL ([l1] @ X, ?F, s)" for X
    using loop_front_acl_rest[OF assms(2), of pf a1 a2 l0 "l1 # X" s] ps by simp
  ultimately show ?thesis unfolding t by (rule alloc_failed_shift[rotated])
next
  fix a1 a2 l assume t: "type = DATA_TYPE_SCO" and ps: "ps = [a1, a2, l]"
  let ?F = "preamble_front DATA_TYPE_SCO [a1, a2] incoming"
  note f = front_sco[of a1 a2 incoming]
  have bl: "unat (body_length_of DATA_TYPE_SCO l ?F) = length body"
    using f assms(4) ps t
    by (simp add: body_length_of_def unat_ucast_8_16)
  have 1: "state ?F = PREAMBLE" "unat (index ?F) < 4" "bytes_remaining ?F = 1"
    "unat (index ?F + 1) = length ps"
    using f ps by simp_all
  have "alloc_failed pf DATA_TYPE_SCO ps [l] body ?F s"
    using alloc_failed_last_byte[OF 1(1,2,3,4) bl] assms(5) by simp
  moreover have "hal_says_data_ready_loop pf DATA_TYPE_SCO (ps @ X, incoming, s) =
       hal_says_data_ready_loop pf DATA_TYPE_SCO ([l] @ X, ?F, s)" for X
    using loop_front_sco_rest[OF assms(2), of pf a1 a2 "l # X" s] ps by simp
  ultimately show ?thesis unfolding t by (rule alloc_failed_shift[rotated])
next
  fix a l assume t: "type = DATA_TYPE_EVENT" and ps: "ps = [a, l]"
  let ?F = "preamble_front DATA_TYPE_EVENT [a] incoming"
  note f = front_event[of a incoming]
  have bl: "unat (body_length_of DATA_TYPE_EVENT l ?F) = length body"
    using f assms(4) ps t
    by (simp add: body_length_of_def unat_ucast_8_16)
  have 1: "state ?F = PREAMBLE" "unat (index ?F) < 4" "bytes_remaining ?F = 1"
    "unat (index ?F + 1) = length ps"
    using f ps by simp_all
  have "alloc_failed pf DATA_TYPE_EVENT ps [l] body ?F s"
    using alloc_failed_last_byte[OF 1(1,2,3,4) bl] assms(5) by simp
  moreover have "hal_says_data_ready_loop pf DATA_TYPE_EVENT (ps @ X, incoming, s) =
       hal_says_data_ready_loop pf DATA_TYPE_EVENT ([l] @ X, ?F, s)" for X
    using loop_front_event_rest[OF assms(2), of pf a "l # X" s] ps by simp
  ultimately show ?thesis unfolding t by (rule alloc_failed_shift[rotated])
qed

lemma loop_whole_packet:
  assumes "type \<noteq> DATA_TYPE_COMMAND"
    and "state incoming = BRAND_NEW"
    and "length ps = unat (preamble_sizes ! nat (PACKET_TYPE_TO_INDEX type))"
    and "length body =
           (if type = DATA_TYPE_ACL then unat (ps ! 2) + 256 * unat (ps ! 3) else unat (last ps))"
    and "buffer_allocator_alloc pf (alloc_calls s) (BT_HDR_SIZE pf + length ps + length body) = Some b0"
  shows "\<exists>B incF.
     hal_says_data_ready_loop pf type (ps @ body @ extra, incoming, s) =
       Inr (Buffer_alloc (BT_HDR_SIZE pf + length ps + length body) #
              fst (hand_over type B (s\<lparr>alloc_calls := Suc (alloc_calls s)\<rparr>)),
            extra, incF, snd (hand_over type B (s\<lparr>alloc_calls := Suc (alloc_calls s)\<rparr>))) \<and>
     len B = of_nat (length ps + length body) \<and> offset B = 0 \<and> event B = inbound_tag type \<and>
     (\<forall>j<length ps + length body. data B j = (ps @ body) ! j) \<and>
     state incF = BRAND_NEW \<and> buffer incF = None"
proof -
  define s1 where "s1 = s\<lparr>alloc_calls := Suc (alloc_calls s)\<rparr>"
  define F where "F = preamble_front type (butlast ps) incoming"
  define n where "n = BT_HDR_SIZE pf + length ps + length body"
  from preamble_done_any[OF assms(1,2,3,4,5), of "body @ extra"]
  obtain inc1 b1 where
    sw: "switch_state pf type (last ps) (body @ extra, F, s) =
           Inr ([Buffer_alloc n], body @ extra, inc1, s1)" and
    br: "unat (bytes_remaining inc1) = length body" and
    ix: "unat (index inc1) = length ps" and
    st: "state inc1 = (if 0 < length body then BODY else FINISHED)" and
    bf: "buffer inc1 = Some b1" and
    b1: "offset b1 = 0" "event b1 = inbound_tag type" "\<forall>i<length ps. data b1 i = ps ! i"
    unfolding preamble_done_def F_def s1_def n_def by blast
  have lp: "hal_says_data_ready_loop pf type (ps @ body @ extra, incoming, s) =
         hal_says_data_ready_loop pf type (last ps # body @ extra, F, s)"
    unfolding F_def by (rule loop_front_rest[OF assms(1,2,3)])
  have ixw: "index inc1 = of_nat (length ps)" by (rule word16_of_unat[OF ix])
  show ?thesis
  proof (cases body)
    case Nil
    with st have fin: "state inc1 = FINISHED" by simp
    let ?B = "b1\<lparr>len := index inc1\<rparr>"
    have "hal_says_data_ready_loop pf type (last ps # body @ extra, F, s) =
       Inr (Buffer_alloc n # fst (hand_over type ?B s1), extra,
            inc1\<lparr>buffer := None, state := BRAND_NEW\<rparr>, snd (hand_over type ?B s1))"
      using sw fin Nil
      by (simp add: loop_step finished_block_hand_over[OF bf]
          del: hal_says_data_ready_loop.simps)
    then have "hal_says_data_ready_loop pf type (ps @ body @ extra, incoming, s) =
       Inr (Buffer_alloc n # fst (hand_over type ?B s1), extra,
            inc1\<lparr>buffer := None, state := BRAND_NEW\<rparr>, snd (hand_over type ?B s1))"
      by (simp only: lp)
    moreover have "len ?B = of_nat (length ps + length body)" using ixw Nil by simp
    moreover have "\<forall>j<length ps + length body. data ?B j = (ps @ body) ! j"
      using b1(3) Nil by simp
    ultimately show ?thesis
      using b1(1,2) unfolding n_def s1_def
      by (intro exI[of _ ?B] exI[of _ "inc1\<lparr>buffer := None, state := BRAND_NEW\<rparr>"]) simp
  next
    case (Cons y ys)
    with st have bd: "state inc1 = BODY" by simp
    then have nf: "state inc1 \<noteq> FINISHED" by simp
    from br Cons have br': "unat (bytes_remaining inc1) = Suc (length ys)" by simp
    define b2 where "b2 = b1\<lparr>data := store_bytes ((data b1)(unat (index inc1) := y))
                                            (unat (index inc1 + 1)) ys\<rparr>"
    define inc2 where "inc2 = inc1\<lparr>buffer := Some b2,
                   index := index inc1 + 1 + of_nat (length ys),
                   bytes_remaining := 0,
                   state := FINISHED\<rparr>"
    have sw2: "switch_state pf type y (ys @ extra, inc1, s1) = Inr ([], extra, inc2, s1)"
      using case_BODY_completes[OF bf br', of y extra s1] bd
      by (simp add: switch_state_def inc2_def b2_def)
    have fin2: "state inc2 = FINISHED" "buffer inc2 = Some b2" by (simp_all add: inc2_def)
    let ?B = "b2\<lparr>len := index inc2\<rparr>"
    have "hal_says_data_ready_loop pf type (last ps # body @ extra, F, s) =
            prepend_effects [Buffer_alloc n]
              (hal_says_data_ready_loop pf type (y # ys @ extra, inc1, s1))"
      using sw nf Cons by (simp add: loop_step del: hal_says_data_ready_loop.simps)
    also have "hal_says_data_ready_loop pf type (y # ys @ extra, inc1, s1) =
       Inr (fst (hand_over type ?B s1), extra,
            inc2\<lparr>buffer := None, state := BRAND_NEW\<rparr>, snd (hand_over type ?B s1))"
      using sw2 fin2
      by (simp add: loop_step finished_block_hand_over[OF fin2(2)]
          del: hal_says_data_ready_loop.simps)
    finally have "hal_says_data_ready_loop pf type (last ps # body @ extra, F, s) =
       Inr (Buffer_alloc n # fst (hand_over type ?B s1), extra,
            inc2\<lparr>buffer := None, state := BRAND_NEW\<rparr>, snd (hand_over type ?B s1))"
      by simp
    then have r: "hal_says_data_ready_loop pf type (ps @ body @ extra, incoming, s) =
       Inr (Buffer_alloc n # fst (hand_over type ?B s1), extra,
            inc2\<lparr>buffer := None, state := BRAND_NEW\<rparr>, snd (hand_over type ?B s1))"
      by (simp only: lp)
    have l: "len ?B = of_nat (length ps + length body)"
      using ixw Cons by (simp add: inc2_def)
    have lps: "length ps < 256"
      using assms(3) unsigned_less[of "preamble_sizes ! nat (PACKET_TYPE_TO_INDEX type)"]
      by simp
    have i1: "unat (index inc1 + 1) = Suc (length ps)"
      using unat_inc16[of "index inc1"] ix lps by simp
    have d: "\<forall>j<length ps + length body. data ?B j = (ps @ body) ! j"
    proof (intro allI impI)
      fix j assume j: "j < length ps + length body"
      show "data ?B j = (ps @ body) ! j"
      proof (cases "j < length ps")
        case True
        with b1(3) show ?thesis
          by (simp add: b2_def store_bytes_def ix i1 nth_append)
      next
        case False
        show ?thesis
        proof (cases "j = length ps")
          case True
          then show ?thesis
            using Cons by (simp add: b2_def store_bytes_def ix i1 nth_append)
        next
          case F2: False
          with False have gt: "Suc (length ps) \<le> j" by simp
          then have "j - length ps = Suc (j - Suc (length ps))" by simp
          then show ?thesis
            using Cons j gt False by (simp add: b2_def store_bytes_def ix i1 nth_append)
        qed
      qed
    qed
    show ?thesis
      using r l d b1(1,2) unfolding n_def s1_def
      by (intro exI[of _ ?B] exI[of _ "inc2\<lparr>buffer := None, state := BRAND_NEW\<rparr>"])
         (simp add: b2_def inc2_def)
  qed
qed

lemma call_whole_packet:
  assumes "type \<noteq> DATA_TYPE_COMMAND"
    and "state (incoming_packets s (nat (PACKET_TYPE_TO_INBOUND_INDEX type))) = BRAND_NEW"
    and "hal_rx s type = ps @ body @ extra"
    and "length ps = unat (preamble_sizes ! nat (PACKET_TYPE_TO_INDEX type))"
    and "length body =
           (if type = DATA_TYPE_ACL then unat (ps ! 2) + 256 * unat (ps ! 3) else unat (last ps))"
    and "buffer_allocator_alloc pf (alloc_calls s) (BT_HDR_SIZE pf + length ps + length body) = Some b0"
  shows "\<exists>B incF.
     hal_says_data_ready pf type s =
       Inr (Buffer_alloc (BT_HDR_SIZE pf + length ps + length body) #
              fst (hand_over type B (s\<lparr>alloc_calls := Suc (alloc_calls s)\<rparr>)),
            store_context type incF extra
              (snd (hand_over type B (s\<lparr>alloc_calls := Suc (alloc_calls s)\<rparr>)))) \<and>
     len B = of_nat (length ps + length body) \<and> offset B = 0 \<and> event B = inbound_tag type \<and>
     (\<forall>j<length ps + length body. data B j = (ps @ body) ! j) \<and>
     state incF = BRAND_NEW \<and> buffer incF = None"
proof -
  from loop_whole_packet[OF assms(1,2,4,5,6), of extra] obtain B incF where
    l: "hal_says_data_ready_loop pf type
          (ps @ body @ extra, incoming_packets s (nat (PACKET_TYPE_TO_INBOUND_INDEX type)), s) =
       Inr (Buffer_alloc (BT_HDR_SIZE pf + length ps + length body) #
              fst (hand_over type B (s\<lparr>alloc_calls := Suc (alloc_calls s)\<rparr>)),
            extra, incF, snd (hand_over type B (s\<lparr>alloc_calls := Suc (alloc_calls s)\<rparr>)))" and
    p: "len B = of_nat (length ps + length body) \<and> offset B = 0 \<and> event B = inbound_tag type \<and>
     (\<forall>j<length ps + length body. data B j = (ps @ body) ! j) \<and>
     state incF = BRAND_NEW \<and> buffer incF = None"
    by blast
  have "hal_says_data_ready pf type s =
       Inr (Buffer_alloc (BT_HDR_SIZE pf + length ps + length body) #
              fst (hand_over type B (s\<lparr>alloc_calls := Suc (alloc_calls s)\<rparr>)),
            store_context type incF extra
              (snd (hand_over type B (s\<lparr>alloc_calls := Suc (alloc_calls s)\<rparr>))))"
    using l by (simp add: call_unfold[OF assms(1)] assms(3) store_result_def)
  with p show ?thesis by blast
qed

section \<open>A dropped packet over several calls\<close>

text \<open>
  Up to the end of a dropped packet no prefix of its bytes lets a packet leave, so the
  bytes may be spread over calls in any way; and the calls that start in \<open>IGNORE\<close> or
  read the last byte of a preamble.
\<close>


lemma loop_preamble_partial:
  "state incoming = PREAMBLE \<Longrightarrow>
   unat (index incoming) + unat (bytes_remaining incoming) \<le> 4 \<Longrightarrow>
   length bs < unat (bytes_remaining incoming) \<Longrightarrow>
     hal_says_data_ready_loop pf type (bs, incoming, s) =
       Inr ([], [], fold preamble_byte bs incoming, s) \<and>
     state (fold preamble_byte bs incoming) = PREAMBLE"
proof (induction bs arbitrary: incoming)
  case Nil
  then show ?case by simp
next
  case (Cons b bs)
  from Cons.prems(3) obtain n where n: "unat (bytes_remaining incoming) = Suc n" "length bs < n"
    by (cases "unat (bytes_remaining incoming)") auto
  have i4: "unat (index incoming) < 4" using Cons.prems(2) n by simp
  have n1: "bytes_remaining incoming \<noteq> 1"
  proof
    assume "bytes_remaining incoming = 1"
    then have "unat (bytes_remaining incoming) = 1" by simp
    with n show False by simp
  qed
  let ?inc1 = "preamble_byte b incoming"
  have sw: "switch_state pf type b (bs, incoming, s) = Inr ([], bs, ?inc1, s)"
    using Cons.prems(1) case_PREAMBLE_continues[OF i4 n1] by (simp add: switch_state_def)
  have st: "state ?inc1 = PREAMBLE" using Cons.prems(1) by (simp add: preamble_byte_def)
  have u: "unat (bytes_remaining ?inc1) = n"
    using n(1) by (simp add: preamble_byte_def unat_Suc_dec)
  have ix: "unat (index ?inc1) = Suc (unat (index incoming))"
    using i4 by (simp add: preamble_byte_def unat_inc_small)
  have le: "unat (index ?inc1) + unat (bytes_remaining ?inc1) \<le> 4"
    using u ix Cons.prems(2) n(1) by simp
  have lt: "length bs < unat (bytes_remaining ?inc1)" using u n(2) by simp
  from Cons.IH[OF st le lt] sw st show ?case
    by (simp add: loop_step del: hal_says_data_ready_loop.simps)
qed

lemma loop_brand_new_first:
  "state incoming = BRAND_NEW \<Longrightarrow>
     hal_says_data_ready_loop pf type (b # bs, incoming, s) =
     hal_says_data_ready_loop pf type (b # bs, case_BRAND_NEW type incoming, s)"
  by (simp add: switch_state_def case_BRAND_NEW_def)

lemma loop_front_partial:
  assumes "type \<noteq> DATA_TYPE_COMMAND" and "state incoming = BRAND_NEW"
    and "bs \<noteq> []" and "length bs < unat (preamble_sizes ! nat (PACKET_TYPE_TO_INDEX type))"
  shows "hal_says_data_ready_loop pf type (bs, incoming, s) =
           Inr ([], [], preamble_front type bs incoming, s) \<and>
         state (preamble_front type bs incoming) = PREAMBLE"
proof -
  let ?inc = "case_BRAND_NEW type incoming"
  have st: "state ?inc = PREAMBLE" by (simp add: case_BRAND_NEW_def)
  have br: "unat (bytes_remaining ?inc) = unat (preamble_sizes ! nat (PACKET_TYPE_TO_INDEX type))"
    by (simp add: case_BRAND_NEW_def unat_ucast_8_16)
  have le: "unat (index ?inc) + unat (bytes_remaining ?inc) \<le> 4"
    using assms(1) unfolding br
    by (cases type) (simp_all add: case_BRAND_NEW_def PACKET_TYPE_TO_INDEX_def preamble_sizes_def)
  have lt: "length bs < unat (bytes_remaining ?inc)" using assms(4) br by simp
  obtain b bs' where bs: "bs = b # bs'" using assms(3) by (cases bs) auto
  from loop_preamble_partial[OF st le lt, of pf type s]
  show ?thesis
    unfolding bs preamble_front_def using loop_brand_new_first[OF assms(2), of pf type b bs' s]
    by simp
qed

lemma quiet_alloc_failure [simp]:
  "quiet [Buffer_alloc n, ALOGE msg]"
  by (simp add: quiet_def)

lemma dropped_packet_silent:
  assumes "type \<noteq> DATA_TYPE_COMMAND"
    and "state incoming = BRAND_NEW"
    and "length ps = unat (preamble_sizes ! nat (PACKET_TYPE_TO_INDEX type))"
    and "alloc_failed pf type ps ps body incoming s"
    and "k \<le> length ps + length body"
  shows "silent (hal_says_data_ready_loop pf type (take k (ps @ body), incoming, s))"
proof -
  from assms(4) obtain inc1 where
    a: "hal_says_data_ready_loop pf type (ps, incoming, s) =
          Inr ([Buffer_alloc (BT_HDR_SIZE pf + length ps + length body),
                ALOGE ''error getting buffer for incoming packet''],
               [], inc1, s\<lparr>alloc_calls := Suc (alloc_calls s)\<rparr>)" and
    p: "state inc1 = (if body = [] then BRAND_NEW else IGNORE)" and
    b: "\<forall>k<length body.
           hal_says_data_ready_loop pf type (ps @ take k body, incoming, s) =
             Inr ([Buffer_alloc (BT_HDR_SIZE pf + length ps + length body),
                   ALOGE ''error getting buffer for incoming packet''],
                  [], inc1\<lparr>bytes_remaining := bytes_remaining inc1 - of_nat k\<rparr>,
                  s\<lparr>alloc_calls := Suc (alloc_calls s)\<rparr>)" and
    c: "\<forall>extra.
           hal_says_data_ready_loop pf type (ps @ body @ extra, incoming, s) =
             (case hal_says_data_ready_loop pf type
                     (extra, inc1\<lparr>bytes_remaining := 0, state := BRAND_NEW\<rparr>,
                      s\<lparr>alloc_calls := Suc (alloc_calls s)\<rparr>) of
                Inl e \<Rightarrow> Inl e
              | Inr (eff, st) \<Rightarrow>
                  Inr ([Buffer_alloc (BT_HDR_SIZE pf + length ps + length body),
                        ALOGE ''error getting buffer for incoming packet''] @ eff, st))"
    unfolding alloc_failed_def by blast
  consider "k = 0" | "0 < k" "k < length ps" | "length ps \<le> k" "k - length ps < length body"
    | "k = length ps + length body"
    using assms(5) by linarith
  then show ?thesis
  proof cases
    case 1
    then show ?thesis using assms(2) by (simp add: silent_def)
  next
    case 2
    then have ne: "take k ps \<noteq> []" by (cases ps) auto
    have lt: "length (take k ps) < unat (preamble_sizes ! nat (PACKET_TYPE_TO_INDEX type))"
      using 2 assms(3) by simp
    from loop_front_partial[OF assms(1,2) ne lt, of pf s] 2 show ?thesis
      by (simp add: silent_def)
  next
    case 3
    then have "take k (ps @ body) = ps @ take (k - length ps) body" by simp
    moreover from 3 have "body \<noteq> []" by auto
    ultimately show ?thesis using b[rule_format, OF 3(2)] p
      by (simp add: silent_def del: hal_says_data_ready_loop.simps)
  next
    case 4
    then have "take k (ps @ body) = ps @ body @ []" by simp
    then show ?thesis using c[rule_format, of "[]"]
      by (simp add: silent_def del: hal_says_data_ready_loop.simps(2))
  qed
qed

lemma take_min_length: "take (min j (length xs)) xs = take j xs"
  by (simp add: min_def)

lemma delivery_dropped:
  assumes "type \<noteq> DATA_TYPE_COMMAND"
    and "state incoming = BRAND_NEW"
    and "length ps = unat (preamble_sizes ! nat (PACKET_TYPE_TO_INDEX type))"
    and "alloc_failed pf type ps ps body incoming s"
    and "concat chunks = take m (ps @ body)"
  shows "run pf (delivery type chunks) (store_context type incoming [] s) =
           store_result type (hal_says_data_ready_loop pf type (concat chunks, incoming, s))"
proof (rule delivery_silent[OF assms(1)], intro allI impI)
  fix k assume "k \<le> length (concat chunks)"
  define j where "j = min (min k m) (length (ps @ body))"
  have "j \<le> length ps + length body" by (simp add: j_def)
  from dropped_packet_silent[OF assms(1,2,3,4) this]
  have "silent (hal_says_data_ready_loop pf type (take j (ps @ body), incoming, s))" .
  moreover have "take j (ps @ body) = take (min k m) (ps @ body)"
    unfolding j_def by (rule take_min_length)
  moreover have "take k (concat chunks) = take (min k m) (ps @ body)"
    by (simp only: assms(5) take_take)
  ultimately show "silent (hal_says_data_ready_loop pf type (take k (concat chunks), incoming, s))"
    by (simp only:)
qed

lemma call_ignore_partial:
  assumes "type \<noteq> DATA_TYPE_COMMAND"
    and "state (incoming_packets t (nat (PACKET_TYPE_TO_INBOUND_INDEX type))) = IGNORE"
    and "length (hal_rx t type) <
           unat (bytes_remaining (incoming_packets t (nat (PACKET_TYPE_TO_INBOUND_INDEX type))))"
  shows "hal_says_data_ready pf type t =
           Inr ([], store_context type
                      ((incoming_packets t (nat (PACKET_TYPE_TO_INBOUND_INDEX type)))
                         \<lparr>bytes_remaining :=
                            bytes_remaining (incoming_packets t (nat (PACKET_TYPE_TO_INBOUND_INDEX type))) -
                            of_nat (length (hal_rx t type))\<rparr>) [] t)"
  using loop_ignore_partial[OF assms(2,3), of pf type t]
  by (simp add: call_unfold[OF assms(1)] store_result_def)

lemma call_ignore_drains:
  assumes "type \<noteq> DATA_TYPE_COMMAND"
    and "state (incoming_packets t (nat (PACKET_TYPE_TO_INBOUND_INDEX type))) = IGNORE"
    and "hal_rx t type = bs @ extra" and "bs \<noteq> []"
    and "unat (bytes_remaining (incoming_packets t (nat (PACKET_TYPE_TO_INBOUND_INDEX type)))) =
           length bs"
  shows "hal_says_data_ready pf type t =
           hal_says_data_ready pf type
             (store_context type
                ((incoming_packets t (nat (PACKET_TYPE_TO_INBOUND_INDEX type)))
                   \<lparr>bytes_remaining := 0, state := BRAND_NEW\<rparr>) extra t)"
  using loop_ignore_drains[OF assms(2,5,4), of pf type extra t]
  by (simp add: call_unfold[OF assms(1), of pf t] call_stored[OF assms(1)] assms(3)
      del: hal_says_data_ready_loop.simps)

lemma call_preamble_alloc_fails:
  assumes "type \<noteq> DATA_TYPE_COMMAND"
    and "incoming_packets t (nat (PACKET_TYPE_TO_INBOUND_INDEX type)) = F"
    and "state F = PREAMBLE" and "unat (index F) < 4" and "bytes_remaining F = 1"
    and "hal_rx t type = l # rest"
    and "buffer_allocator_alloc pf (alloc_calls t)
           (BT_HDR_SIZE pf + unat (index F + 1) + unat (body_length_of type l F)) = None"
  shows "hal_says_data_ready pf type t =
           prepend_effects
             [Buffer_alloc (BT_HDR_SIZE pf + unat (index F + 1) + unat (body_length_of type l F)),
              ALOGE ''error getting buffer for incoming packet'']
             (hal_says_data_ready pf type
                (store_context type
                   ((preamble_byte l F)
                      \<lparr>bytes_remaining := body_length_of type l F,
                       buffer := None,
                       state := (if body_length_of type l F = 0 then BRAND_NEW else IGNORE)\<rparr>)
                   rest (t\<lparr>alloc_calls := Suc (alloc_calls t)\<rparr>)))"
proof -
  note c = case_PREAMBLE_alloc_fails[OF assms(4,5,7), of rest]
  have sw: "switch_state pf type l
              (rest, incoming_packets t (nat (PACKET_TYPE_TO_INBOUND_INDEX type)), t) =
     Inr ([Buffer_alloc (BT_HDR_SIZE pf + unat (index F + 1) +
                         unat (body_length_of type l F)),
           ALOGE ''error getting buffer for incoming packet''],
          rest,
          (preamble_byte l F)
            \<lparr>bytes_remaining := body_length_of type l F,
             buffer := None,
             state := (if body_length_of type l F = 0 then BRAND_NEW else IGNORE)\<rparr>,
          t\<lparr>alloc_calls := Suc (alloc_calls t)\<rparr>)"
    using c assms(3) by (simp add: switch_state_def assms(2))
  show ?thesis
    by (rule call_continues[OF assms(1) assms(6) sw]) simp
qed

section \<open>One packet per call\<close>

text \<open>
  What holds of every call that returns: at most one packet leaves, as the last thing the
  call does, and the call returns from every well-formed context.
\<close>

lemma hal_says_data_ready_bounds:
  "(type \<noteq> DATA_TYPE_COMMAND \<and>
    well_formed (incoming_packets s (nat (PACKET_TYPE_TO_INBOUND_INDEX type))) \<longrightarrow>
      (\<exists>eff s'. hal_says_data_ready pf type s = Inr (eff, s') \<and>
         well_formed (incoming_packets s' (nat (PACKET_TYPE_TO_INBOUND_INDEX type))))) \<and>
   (\<forall>eff s'. hal_says_data_ready pf type s = Inr (eff, s') \<longrightarrow>
      (hal_rx s type = [] \<longrightarrow> eff = [] \<and> s' = s) \<and>
      length (filter is_capture eff) \<le> 1 \<and>
      length (filter is_reassemble eff) \<le> 1 \<and>
      length (filter is_packet_finished eff) \<le> 1 \<and>
      (quiet eff \<longrightarrow> hal_rx s' type = []) \<and>
      (\<not> quiet eff \<longrightarrow>
         emits_one type s eff (incoming_packets s' (nat (PACKET_TYPE_TO_INBOUND_INDEX type))) \<and>
         (\<forall>extra.
            hal_says_data_ready pf type (s\<lparr>hal_rx := (hal_rx s)(type := hal_rx s type @ extra)\<rparr>) =
              Inr (eff, s'\<lparr>hal_rx := (hal_rx s')(type := hal_rx s' type @ extra)\<rparr>))))"
proof (rule conjI)
  show "type \<noteq> DATA_TYPE_COMMAND \<and>
    well_formed (incoming_packets s (nat (PACKET_TYPE_TO_INBOUND_INDEX type))) \<longrightarrow>
      (\<exists>eff s'. hal_says_data_ready pf type s = Inr (eff, s') \<and>
         well_formed (incoming_packets s' (nat (PACKET_TYPE_TO_INBOUND_INDEX type))))"
  proof
  define i where "i = PACKET_TYPE_TO_INBOUND_INDEX type"
  assume a: "type \<noteq> DATA_TYPE_COMMAND \<and>
    well_formed (incoming_packets s (nat (PACKET_TYPE_TO_INBOUND_INDEX type)))"
  then have ok: "\<not> (i < 0 \<or> INBOUND_PACKET_TYPE_COUNT \<le> i)"
    by (cases type)
       (simp_all add: i_def PACKET_TYPE_TO_INBOUND_INDEX_def INBOUND_PACKET_TYPE_COUNT_def)
  from a have "well_formed (incoming_packets s (nat i))" by (simp add: i_def)
  from loop_returns[OF this, of pf type "hal_rx s type" s] obtain eff rx1 inc1 s1 where
    "hal_says_data_ready_loop pf type (hal_rx s type, incoming_packets s (nat i), s) =
       Inr (eff, rx1, inc1, s1)" "well_formed inc1"
    by blast
  with ok show "\<exists>eff s'. hal_says_data_ready pf type s = Inr (eff, s') \<and>
         well_formed (incoming_packets s' (nat (PACKET_TYPE_TO_INBOUND_INDEX type)))"
    by (simp add: hal_says_data_ready_def Let_def i_def[symmetric])
  qed
next
  show "\<forall>eff s'. hal_says_data_ready pf type s = Inr (eff, s') \<longrightarrow>
      (hal_rx s type = [] \<longrightarrow> eff = [] \<and> s' = s) \<and>
      length (filter is_capture eff) \<le> 1 \<and>
      length (filter is_reassemble eff) \<le> 1 \<and>
      length (filter is_packet_finished eff) \<le> 1 \<and>
      (quiet eff \<longrightarrow> hal_rx s' type = []) \<and>
      (\<not> quiet eff \<longrightarrow>
         emits_one type s eff (incoming_packets s' (nat (PACKET_TYPE_TO_INBOUND_INDEX type))) \<and>
         (\<forall>extra.
            hal_says_data_ready pf type (s\<lparr>hal_rx := (hal_rx s)(type := hal_rx s type @ extra)\<rparr>) =
              Inr (eff, s'\<lparr>hal_rx := (hal_rx s')(type := hal_rx s' type @ extra)\<rparr>)))"
  proof (rule allI, rule allI, rule impI)
  fix eff s'
  assume r: "hal_says_data_ready pf type s = Inr (eff, s')"
  define i where "i = PACKET_TYPE_TO_INBOUND_INDEX type"
  from r have ok: "\<not> (i < 0 \<or> INBOUND_PACKET_TYPE_COUNT \<le> i)"
    by (auto simp: hal_says_data_ready_def Let_def i_def split: if_splits)
  with r obtain rx1 inc1 s1 where
    lp: "hal_says_data_ready_loop pf type (hal_rx s type, incoming_packets s (nat i), s) =
           Inr (eff, rx1, inc1, s1)" and
    s': "s' = s1\<lparr>incoming_packets := (incoming_packets s1)(nat i := inc1),
                 hal_rx := (hal_rx s1)(type := rx1)\<rparr>"
    by (auto simp: hal_says_data_ready_def Let_def i_def split: if_splits sum.splits)
  note fr = loop_frame[OF lp]
  note one = loop_one_packet[OF lp]
  have empty: "hal_rx s type = [] \<longrightarrow> eff = [] \<and> s' = s"
  proof
    assume e: "hal_rx s type = []"
    with lp have "eff = []" "rx1 = []" "inc1 = incoming_packets s (nat i)" "s1 = s" by auto
    moreover have "(hal_rx s)(type := []) = hal_rx s" using e by (simp add: fun_upd_idem)
    ultimately show "eff = [] \<and> s' = s" using s' by simp
  qed
  have counts: "length (filter is_capture eff) \<le> 1 \<and>
         length (filter is_reassemble eff) \<le> 1 \<and>
         length (filter is_packet_finished eff) \<le> 1"
    using one emits_one_counts[of type s eff inc1] by (auto simp: quiet_def)
  have q: "quiet eff \<longrightarrow> hal_rx s' type = []"
    using one emits_one_counts[of type s eff inc1] s' by auto
  have nq: "\<not> quiet eff \<longrightarrow>
            emits_one type s eff (incoming_packets s' (nat i)) \<and>
            (\<forall>extra.
               hal_says_data_ready pf type (s\<lparr>hal_rx := (hal_rx s)(type := hal_rx s type @ extra)\<rparr>) =
                 Inr (eff, s'\<lparr>hal_rx := (hal_rx s')(type := hal_rx s' type @ extra)\<rparr>))"
  proof (intro impI conjI allI)
    assume n: "\<not> quiet eff"
    with one have "emits_one type s eff inc1" by simp
    then show "emits_one type s eff (incoming_packets s' (nat i))" using s' by simp
  next
    fix extra
    assume n: "\<not> quiet eff"
    define H where "H = (hal_rx s)(type := hal_rx s type @ extra)"
    from loop_append[OF lp n, of extra]
    have "hal_says_data_ready_loop pf type (hal_rx s type @ extra, incoming_packets s (nat i), s) =
            Inr (eff, rx1 @ extra, inc1, s1)" .
    from loop_hal_rx[OF this, of H]
    have l2: "hal_says_data_ready_loop pf type
               (hal_rx s type @ extra, incoming_packets s (nat i), s\<lparr>hal_rx := H\<rparr>) =
            Inr (eff, rx1 @ extra, inc1, s1\<lparr>hal_rx := H\<rparr>)" .
    have "hal_says_data_ready pf type (s\<lparr>hal_rx := H\<rparr>) =
            Inr (eff, (s1\<lparr>hal_rx := H\<rparr>)
                   \<lparr>incoming_packets := (incoming_packets (s1\<lparr>hal_rx := H\<rparr>))(nat i := inc1),
                    hal_rx := (hal_rx (s1\<lparr>hal_rx := H\<rparr>))(type := rx1 @ extra)\<rparr>)"
      using ok l2 by (simp add: hal_says_data_ready_def Let_def i_def[symmetric] H_def)
    also have "(s1\<lparr>hal_rx := H\<rparr>)
                   \<lparr>incoming_packets := (incoming_packets (s1\<lparr>hal_rx := H\<rparr>))(nat i := inc1),
                    hal_rx := (hal_rx (s1\<lparr>hal_rx := H\<rparr>))(type := rx1 @ extra)\<rparr> =
               s'\<lparr>hal_rx := (hal_rx s')(type := hal_rx s' type @ extra)\<rparr>"
      using s' fr by (simp add: H_def)
    finally show "hal_says_data_ready pf type (s\<lparr>hal_rx := (hal_rx s)(type := hal_rx s type @ extra)\<rparr>) =
                 Inr (eff, s'\<lparr>hal_rx := (hal_rx s')(type := hal_rx s' type @ extra)\<rparr>)"
      unfolding H_def .
  qed
  from empty counts q nq
  show "(hal_rx s type = [] \<longrightarrow> eff = [] \<and> s' = s) \<and>
      length (filter is_capture eff) \<le> 1 \<and>
      length (filter is_reassemble eff) \<le> 1 \<and>
      length (filter is_packet_finished eff) \<le> 1 \<and>
      (quiet eff \<longrightarrow> hal_rx s' type = []) \<and>
      (\<not> quiet eff \<longrightarrow>
         emits_one type s eff (incoming_packets s' (nat (PACKET_TYPE_TO_INBOUND_INDEX type))) \<and>
         (\<forall>extra.
            hal_says_data_ready pf type (s\<lparr>hal_rx := (hal_rx s)(type := hal_rx s type @ extra)\<rparr>) =
              Inr (eff, s'\<lparr>hal_rx := (hal_rx s')(type := hal_rx s' type @ extra)\<rparr>)))"
    by (simp add: i_def)
  qed
qed

text \<open>
  C5. A call of \<open>hal_says_data_ready\<close> for an inbound type returns when the context
  was left well formed, and leaves it well formed. Whenever a call returns: with no byte
  in the HAL it has no effect and changes nothing; among its effects there is at most
  one capture, at most one dispatch and at most one notification of the HAL; if no packet
  leaves, every byte of the HAL was read; if a packet leaves, then that is the last thing
  the call does: the packet gets the length \<open>index\<close>, is captured to btsnoop, goes to
  the filter when it is an event and to the reassembler unless the filter swallowed
  it, the context is \<open>BRAND_NEW\<close> without a buffer, and the HAL is notified. The call
  ends there: had the HAL held more bytes, the effects would be the same and these bytes
  would still be in the HAL.

  With no byte in the HAL a call for an inbound type returns at once, with no effect and
  the state as it was. When the first byte brings the state machine to \<open>FINISHED\<close>
  with a buffer, the call returns after the hand-over: the effects of the byte, then the
  capture of the packet with \<open>len\<close> set to \<open>index\<close>, the filter or the reassembler, and
  the notification of the HAL; the context is stored as \<open>BRAND_NEW\<close> without a buffer,
  and the bytes that were not read stay in the HAL. When the first byte does not bring
  the state machine to \<open>FINISHED\<close>, the call goes on as a call does that finds the new
  context stored and the remaining bytes in the HAL.

  A context left in \<open>BODY\<close> by earlier calls is taken up: when the HAL holds the missing
  bytes of the body, and possibly more, the call stores them behind the bytes already in
  the buffer and hands the packet over, and what follows the body stays in the HAL; when
  the HAL holds fewer, the call stores them, counts them, and stores the context in
  \<open>BODY\<close> with no effect. And when the context is \<open>BRAND_NEW\<close>, the HAL holds a whole
  packet and the allocation succeeds, one call allocates the buffer and hands over the
  packet whose data are the bytes of the preamble and of the body, with their number as
  \<open>len\<close>, offset 0 and the inbound tag of the type.
\<close>

theorem hal_says_data_ready_one_packet:
  "(type \<noteq> DATA_TYPE_COMMAND \<and>
    well_formed (incoming_packets s (nat (PACKET_TYPE_TO_INBOUND_INDEX type))) \<longrightarrow>
      (\<exists>eff s'. hal_says_data_ready pf type s = Inr (eff, s') \<and>
         well_formed (incoming_packets s' (nat (PACKET_TYPE_TO_INBOUND_INDEX type))))) \<and>
   (\<forall>eff s'. hal_says_data_ready pf type s = Inr (eff, s') \<longrightarrow>
      (hal_rx s type = [] \<longrightarrow> eff = [] \<and> s' = s) \<and>
      length (filter is_capture eff) \<le> 1 \<and>
      length (filter is_reassemble eff) \<le> 1 \<and>
      length (filter is_packet_finished eff) \<le> 1 \<and>
      (quiet eff \<longrightarrow> hal_rx s' type = []) \<and>
      (\<not> quiet eff \<longrightarrow>
         emits_one type s eff (incoming_packets s' (nat (PACKET_TYPE_TO_INBOUND_INDEX type))) \<and>
         (\<forall>extra.
            hal_says_data_ready pf type (s\<lparr>hal_rx := (hal_rx s)(type := hal_rx s type @ extra)\<rparr>) =
              Inr (eff, s'\<lparr>hal_rx := (hal_rx s')(type := hal_rx s' type @ extra)\<rparr>)))) \<and>
   (type \<noteq> DATA_TYPE_COMMAND \<and> hal_rx s type = [] \<longrightarrow>
      hal_says_data_ready pf type s = Inr ([], s)) \<and>
   (\<forall>byte rest eff1 rx1 inc1 s1 b.
      type \<noteq> DATA_TYPE_COMMAND \<and> hal_rx s type = byte # rest \<and>
      switch_state pf type byte
        (rest, incoming_packets s (nat (PACKET_TYPE_TO_INBOUND_INDEX type)), s) =
        Inr (eff1, rx1, inc1, s1) \<and>
      state inc1 = FINISHED \<and> buffer inc1 = Some b \<longrightarrow>
      hal_says_data_ready pf type s =
        Inr (eff1 @ fst (hand_over type (b\<lparr>len := index inc1\<rparr>) s1),
             store_context type (inc1\<lparr>buffer := None, state := BRAND_NEW\<rparr>) rx1
               (snd (hand_over type (b\<lparr>len := index inc1\<rparr>) s1)))) \<and>
   (\<forall>byte rest eff1 rx1 inc1 s1.
      type \<noteq> DATA_TYPE_COMMAND \<and> hal_rx s type = byte # rest \<and>
      switch_state pf type byte
        (rest, incoming_packets s (nat (PACKET_TYPE_TO_INBOUND_INDEX type)), s) =
        Inr (eff1, rx1, inc1, s1) \<and>
      state inc1 \<noteq> FINISHED \<longrightarrow>
      hal_says_data_ready pf type s =
        prepend_effects eff1 (hal_says_data_ready pf type (store_context type inc1 rx1 s1))) \<and>
   (\<forall>b y ys extra.
      type \<noteq> DATA_TYPE_COMMAND \<and>
      state (incoming_packets s (nat (PACKET_TYPE_TO_INBOUND_INDEX type))) = BODY \<and>
      buffer (incoming_packets s (nat (PACKET_TYPE_TO_INBOUND_INDEX type))) = Some b \<and>
      hal_rx s type = y # ys @ extra \<and>
      unat (bytes_remaining (incoming_packets s (nat (PACKET_TYPE_TO_INBOUND_INDEX type)))) =
        Suc (length ys) \<longrightarrow>
      hal_says_data_ready pf type s =
        Inr (fst (hand_over type
                 (b\<lparr>data := store_bytes
                       ((data b)(unat (index (incoming_packets s (nat (PACKET_TYPE_TO_INBOUND_INDEX type)))) := y))
                       (unat (index (incoming_packets s (nat (PACKET_TYPE_TO_INBOUND_INDEX type))) + 1)) ys,
                    len := index (incoming_packets s (nat (PACKET_TYPE_TO_INBOUND_INDEX type))) + 1 +
                           of_nat (length ys)\<rparr>) s),
          store_context type
            ((incoming_packets s (nat (PACKET_TYPE_TO_INBOUND_INDEX type)))
               \<lparr>index := index (incoming_packets s (nat (PACKET_TYPE_TO_INBOUND_INDEX type))) + 1 +
                         of_nat (length ys),
                bytes_remaining := 0,
                buffer := None,
                state := BRAND_NEW\<rparr>) extra
            (snd (hand_over type
                 (b\<lparr>data := store_bytes
                       ((data b)(unat (index (incoming_packets s (nat (PACKET_TYPE_TO_INBOUND_INDEX type)))) := y))
                       (unat (index (incoming_packets s (nat (PACKET_TYPE_TO_INBOUND_INDEX type))) + 1)) ys,
                    len := index (incoming_packets s (nat (PACKET_TYPE_TO_INBOUND_INDEX type))) + 1 +
                           of_nat (length ys)\<rparr>) s)))) \<and>
   (\<forall>b y ys.
      type \<noteq> DATA_TYPE_COMMAND \<and>
      state (incoming_packets s (nat (PACKET_TYPE_TO_INBOUND_INDEX type))) = BODY \<and>
      buffer (incoming_packets s (nat (PACKET_TYPE_TO_INBOUND_INDEX type))) = Some b \<and>
      hal_rx s type = y # ys \<and>
      Suc (length ys) <
        unat (bytes_remaining (incoming_packets s (nat (PACKET_TYPE_TO_INBOUND_INDEX type)))) \<longrightarrow>
      hal_says_data_ready pf type s =
        Inr ([],
          store_context type
            ((incoming_packets s (nat (PACKET_TYPE_TO_INBOUND_INDEX type)))
               \<lparr>buffer := Some (b\<lparr>data := store_bytes
                       ((data b)(unat (index (incoming_packets s (nat (PACKET_TYPE_TO_INBOUND_INDEX type)))) := y))
                       (unat (index (incoming_packets s (nat (PACKET_TYPE_TO_INBOUND_INDEX type))) + 1)) ys\<rparr>),
                index := index (incoming_packets s (nat (PACKET_TYPE_TO_INBOUND_INDEX type))) + 1 +
                         of_nat (length ys),
                bytes_remaining :=
                  bytes_remaining (incoming_packets s (nat (PACKET_TYPE_TO_INBOUND_INDEX type))) - 1 -
                  of_nat (length ys)\<rparr>) [] s)) \<and>
   (\<forall>ps body extra b0.
      type \<noteq> DATA_TYPE_COMMAND \<and>
      state (incoming_packets s (nat (PACKET_TYPE_TO_INBOUND_INDEX type))) = BRAND_NEW \<and>
      hal_rx s type = ps @ body @ extra \<and>
      length ps = unat (preamble_sizes ! nat (PACKET_TYPE_TO_INDEX type)) \<and>
      length body =
        (if type = DATA_TYPE_ACL then unat (ps ! 2) + 256 * unat (ps ! 3) else unat (last ps)) \<and>
      buffer_allocator_alloc pf (alloc_calls s) (BT_HDR_SIZE pf + length ps + length body) =
        Some b0 \<longrightarrow>
      (\<exists>B incF.
         hal_says_data_ready pf type s =
           Inr (Buffer_alloc (BT_HDR_SIZE pf + length ps + length body) #
                  fst (hand_over type B (s\<lparr>alloc_calls := Suc (alloc_calls s)\<rparr>)),
                store_context type incF extra
                  (snd (hand_over type B (s\<lparr>alloc_calls := Suc (alloc_calls s)\<rparr>)))) \<and>
         len B = of_nat (length ps + length body) \<and> offset B = 0 \<and>
         event B = inbound_tag type \<and>
         (\<forall>j<length ps + length body. data B j = (ps @ body) ! j) \<and>
         state incF = BRAND_NEW \<and> buffer incF = None))"
proof (intro conjI)
  show "type \<noteq> DATA_TYPE_COMMAND \<and>
    well_formed (incoming_packets s (nat (PACKET_TYPE_TO_INBOUND_INDEX type))) \<longrightarrow>
      (\<exists>eff s'. hal_says_data_ready pf type s = Inr (eff, s') \<and>
         well_formed (incoming_packets s' (nat (PACKET_TYPE_TO_INBOUND_INDEX type))))"
    by (rule hal_says_data_ready_bounds[THEN conjunct1])
next
  show "\<forall>eff s'. hal_says_data_ready pf type s = Inr (eff, s') \<longrightarrow>
      (hal_rx s type = [] \<longrightarrow> eff = [] \<and> s' = s) \<and>
      length (filter is_capture eff) \<le> 1 \<and>
      length (filter is_reassemble eff) \<le> 1 \<and>
      length (filter is_packet_finished eff) \<le> 1 \<and>
      (quiet eff \<longrightarrow> hal_rx s' type = []) \<and>
      (\<not> quiet eff \<longrightarrow>
         emits_one type s eff (incoming_packets s' (nat (PACKET_TYPE_TO_INBOUND_INDEX type))) \<and>
         (\<forall>extra.
            hal_says_data_ready pf type (s\<lparr>hal_rx := (hal_rx s)(type := hal_rx s type @ extra)\<rparr>) =
              Inr (eff, s'\<lparr>hal_rx := (hal_rx s')(type := hal_rx s' type @ extra)\<rparr>)))"
    by (rule hal_says_data_ready_bounds[THEN conjunct2])
next
  show "type \<noteq> DATA_TYPE_COMMAND \<and> hal_rx s type = [] \<longrightarrow>
      hal_says_data_ready pf type s = Inr ([], s)"
    by (intro impI, elim conjE) (rule call_empty)
next
  show "\<forall>byte rest eff1 rx1 inc1 s1 b.
      type \<noteq> DATA_TYPE_COMMAND \<and> hal_rx s type = byte # rest \<and>
      switch_state pf type byte
        (rest, incoming_packets s (nat (PACKET_TYPE_TO_INBOUND_INDEX type)), s) =
        Inr (eff1, rx1, inc1, s1) \<and>
      state inc1 = FINISHED \<and> buffer inc1 = Some b \<longrightarrow>
      hal_says_data_ready pf type s =
        Inr (eff1 @ fst (hand_over type (b\<lparr>len := index inc1\<rparr>) s1),
             store_context type (inc1\<lparr>buffer := None, state := BRAND_NEW\<rparr>) rx1
               (snd (hand_over type (b\<lparr>len := index inc1\<rparr>) s1)))"
    by (intro allI impI, elim conjE) (rule call_finishes)
next
  show "\<forall>byte rest eff1 rx1 inc1 s1.
      type \<noteq> DATA_TYPE_COMMAND \<and> hal_rx s type = byte # rest \<and>
      switch_state pf type byte
        (rest, incoming_packets s (nat (PACKET_TYPE_TO_INBOUND_INDEX type)), s) =
        Inr (eff1, rx1, inc1, s1) \<and>
      state inc1 \<noteq> FINISHED \<longrightarrow>
      hal_says_data_ready pf type s =
        prepend_effects eff1 (hal_says_data_ready pf type (store_context type inc1 rx1 s1))"
    by (intro allI impI, elim conjE) (rule call_continues)
next
  show "\<forall>b y ys extra.
      type \<noteq> DATA_TYPE_COMMAND \<and>
      state (incoming_packets s (nat (PACKET_TYPE_TO_INBOUND_INDEX type))) = BODY \<and>
      buffer (incoming_packets s (nat (PACKET_TYPE_TO_INBOUND_INDEX type))) = Some b \<and>
      hal_rx s type = y # ys @ extra \<and>
      unat (bytes_remaining (incoming_packets s (nat (PACKET_TYPE_TO_INBOUND_INDEX type)))) =
        Suc (length ys) \<longrightarrow>
      hal_says_data_ready pf type s =
        Inr (fst (hand_over type
                 (b\<lparr>data := store_bytes
                       ((data b)(unat (index (incoming_packets s (nat (PACKET_TYPE_TO_INBOUND_INDEX type)))) := y))
                       (unat (index (incoming_packets s (nat (PACKET_TYPE_TO_INBOUND_INDEX type))) + 1)) ys,
                    len := index (incoming_packets s (nat (PACKET_TYPE_TO_INBOUND_INDEX type))) + 1 +
                           of_nat (length ys)\<rparr>) s),
          store_context type
            ((incoming_packets s (nat (PACKET_TYPE_TO_INBOUND_INDEX type)))
               \<lparr>index := index (incoming_packets s (nat (PACKET_TYPE_TO_INBOUND_INDEX type))) + 1 +
                         of_nat (length ys),
                bytes_remaining := 0,
                buffer := None,
                state := BRAND_NEW\<rparr>) extra
            (snd (hand_over type
                 (b\<lparr>data := store_bytes
                       ((data b)(unat (index (incoming_packets s (nat (PACKET_TYPE_TO_INBOUND_INDEX type)))) := y))
                       (unat (index (incoming_packets s (nat (PACKET_TYPE_TO_INBOUND_INDEX type))) + 1)) ys,
                    len := index (incoming_packets s (nat (PACKET_TYPE_TO_INBOUND_INDEX type))) + 1 +
                           of_nat (length ys)\<rparr>) s)))"
    by (intro allI impI, elim conjE) (rule call_body_completes)
next
  show "\<forall>b y ys.
      type \<noteq> DATA_TYPE_COMMAND \<and>
      state (incoming_packets s (nat (PACKET_TYPE_TO_INBOUND_INDEX type))) = BODY \<and>
      buffer (incoming_packets s (nat (PACKET_TYPE_TO_INBOUND_INDEX type))) = Some b \<and>
      hal_rx s type = y # ys \<and>
      Suc (length ys) <
        unat (bytes_remaining (incoming_packets s (nat (PACKET_TYPE_TO_INBOUND_INDEX type)))) \<longrightarrow>
      hal_says_data_ready pf type s =
        Inr ([],
          store_context type
            ((incoming_packets s (nat (PACKET_TYPE_TO_INBOUND_INDEX type)))
               \<lparr>buffer := Some (b\<lparr>data := store_bytes
                       ((data b)(unat (index (incoming_packets s (nat (PACKET_TYPE_TO_INBOUND_INDEX type)))) := y))
                       (unat (index (incoming_packets s (nat (PACKET_TYPE_TO_INBOUND_INDEX type))) + 1)) ys\<rparr>),
                index := index (incoming_packets s (nat (PACKET_TYPE_TO_INBOUND_INDEX type))) + 1 +
                         of_nat (length ys),
                bytes_remaining :=
                  bytes_remaining (incoming_packets s (nat (PACKET_TYPE_TO_INBOUND_INDEX type))) - 1 -
                  of_nat (length ys)\<rparr>) [] s)"
    by (intro allI impI, elim conjE) (rule call_body_partial)
next
  show "\<forall>ps body extra b0.
      type \<noteq> DATA_TYPE_COMMAND \<and>
      state (incoming_packets s (nat (PACKET_TYPE_TO_INBOUND_INDEX type))) = BRAND_NEW \<and>
      hal_rx s type = ps @ body @ extra \<and>
      length ps = unat (preamble_sizes ! nat (PACKET_TYPE_TO_INDEX type)) \<and>
      length body =
        (if type = DATA_TYPE_ACL then unat (ps ! 2) + 256 * unat (ps ! 3) else unat (last ps)) \<and>
      buffer_allocator_alloc pf (alloc_calls s) (BT_HDR_SIZE pf + length ps + length body) =
        Some b0 \<longrightarrow>
      (\<exists>B incF.
         hal_says_data_ready pf type s =
           Inr (Buffer_alloc (BT_HDR_SIZE pf + length ps + length body) #
                  fst (hand_over type B (s\<lparr>alloc_calls := Suc (alloc_calls s)\<rparr>)),
                store_context type incF extra
                  (snd (hand_over type B (s\<lparr>alloc_calls := Suc (alloc_calls s)\<rparr>)))) \<and>
         len B = of_nat (length ps + length body) \<and> offset B = 0 \<and>
         event B = inbound_tag type \<and>
         (\<forall>j<length ps + length body. data B j = (ps @ body) ! j) \<and>
         state incF = BRAND_NEW \<and> buffer incF = None)"
    by (intro allI impI, elim conjE) (rule call_whole_packet)
qed

lemma event_pending_state_run:
  "\<exists>eff s'.
     hal_says_data_ready (platform_failing []) DATA_TYPE_EVENT event_pending_state = Inr (eff, s') \<and>
     hal_rx s' DATA_TYPE_EVENT = [0x0F] \<and> command_credits s' = 1 \<and>
     commands_pending_response s' = [] \<and>
     filter is_capture eff \<noteq> [] \<and>
     filter is_packet_finished eff = [Hal_packet_finished DATA_TYPE_EVENT] \<and>
     filter is_reassemble eff = [] \<and> length eff = 7"
  by (simp add: event_pending_state_def initial_state_def hal_says_data_ready_def Let_def
      PACKET_TYPE_TO_INBOUND_INDEX_def INBOUND_PACKET_TYPE_COUNT_def
      zeroed_packet_receive_data_def switch_state_def case_BRAND_NEW_def case_PREAMBLE_def
      case_BODY_def PACKET_TYPE_TO_INDEX_def preamble_sizes_def PREAMBLE_BUFFER_SIZE_def
      platform_failing_def packet_of_def bytes_of_def outbound_event_types_def memcpy_def
      hal_read_data_def store_bytes_def finished_block_def filter_incoming_event_def
      STREAM_TO_UINT8_def STREAM_TO_UINT16_def HCI_COMMAND_COMPLETE_EVT_def
      HCI_COMMAND_STATUS_EVT_def get_waiting_command_def wait_entry_of_def list_remove_def
      intercepted_def restart_command_timeout_alarm_def)

text \<open>
  The HAL holds a command-complete event of six bytes and one more byte: the call allocates
  14 bytes, captures the event with its six bytes and hands it to the filter, which
  swallows it, notifies the HAL, and returns with the context \<open>BRAND_NEW\<close> and the seventh
  byte left in the HAL.
\<close>

theorem hal_says_data_ready_one_packet_witness:
  "\<exists>B eff s'.
     hal_says_data_ready (platform_failing []) DATA_TYPE_EVENT event_pending_state = Inr (eff, s') \<and>
     eff = Buffer_alloc 14 #
             fst (hand_over DATA_TYPE_EVENT B (event_pending_state\<lparr>alloc_calls := 1\<rparr>)) \<and>
     len B = 6 \<and> event B = MSG_HC_TO_STACK_HCI_EVT \<and>
     data B 0 = 0x0E \<and> data B 1 = 0x04 \<and> data B 2 = 0x01 \<and> data B 3 = 0x03 \<and>
     data B 4 = 0x0C \<and> data B 5 = 0x00 \<and>
     hal_rx s' DATA_TYPE_EVENT = [0x0F] \<and>
     state (incoming_packets s' (nat (PACKET_TYPE_TO_INBOUND_INDEX DATA_TYPE_EVENT))) = BRAND_NEW \<and>
     buffer (incoming_packets s' (nat (PACKET_TYPE_TO_INBOUND_INDEX DATA_TYPE_EVENT))) = None \<and>
     filter is_packet_finished eff = [Hal_packet_finished DATA_TYPE_EVENT] \<and>
     filter is_reassemble eff = [] \<and>
     length (filter is_capture eff) \<le> 1 \<and>
     \<not> quiet eff \<and>
     emits_one DATA_TYPE_EVENT event_pending_state eff
       (incoming_packets s' (nat (PACKET_TYPE_TO_INBOUND_INDEX DATA_TYPE_EVENT)))"
proof -
  note main = hal_says_data_ready_one_packet
               [of DATA_TYPE_EVENT event_pending_state "platform_failing []"]
  from event_pending_state_run obtain eff s' where
    r: "hal_says_data_ready (platform_failing []) DATA_TYPE_EVENT event_pending_state = Inr (eff, s')" and
    f: "hal_rx s' DATA_TYPE_EVENT = [0x0F]"
       "filter is_packet_finished eff = [Hal_packet_finished DATA_TYPE_EVENT]"
       "filter is_reassemble eff = []"
    by blast
  from f(2) have nq: "\<not> quiet eff" by (simp add: quiet_def)
  from main[THEN conjunct2, THEN conjunct1, rule_format, OF r] nq
  have b: "length (filter is_capture eff) \<le> 1"
       "emits_one DATA_TYPE_EVENT event_pending_state eff
          (incoming_packets s' (nat (PACKET_TYPE_TO_INBOUND_INDEX DATA_TYPE_EVENT)))"
    by blast+
  have h: "DATA_TYPE_EVENT \<noteq> DATA_TYPE_COMMAND \<and>
      state (incoming_packets event_pending_state
               (nat (PACKET_TYPE_TO_INBOUND_INDEX DATA_TYPE_EVENT))) = BRAND_NEW \<and>
      hal_rx event_pending_state DATA_TYPE_EVENT =
        [0x0E, 0x04] @ [0x01, 0x03, 0x0C, 0x00] @ [0x0F] \<and>
      length [0x0E, 0x04 :: 8 word] =
        unat (preamble_sizes ! nat (PACKET_TYPE_TO_INDEX DATA_TYPE_EVENT)) \<and>
      length [0x01, 0x03, 0x0C, 0x00 :: 8 word] =
        (if DATA_TYPE_EVENT = DATA_TYPE_ACL
         then unat ([0x0E, 0x04 :: 8 word] ! 2) + 256 * unat ([0x0E, 0x04 :: 8 word] ! 3)
         else unat (last [0x0E, 0x04 :: 8 word])) \<and>
      buffer_allocator_alloc (platform_failing []) (alloc_calls event_pending_state)
        (BT_HDR_SIZE (platform_failing []) + length [0x0E, 0x04 :: 8 word] +
         length [0x01, 0x03, 0x0C, 0x00 :: 8 word]) =
        Some (packet_of (MSG_OTHER 0) [])"
    by (simp add: event_pending_state_def initial_state_def zeroed_packet_receive_data_def
          preamble_sizes_def PACKET_TYPE_TO_INDEX_def platform_failing_def)
  have n: "BT_HDR_SIZE (platform_failing []) + length [0x0E, 0x04 :: 8 word] +
             length [0x01, 0x03, 0x0C, 0x00 :: 8 word] = 14"
    by (simp add: platform_failing_def)
  have s1: "event_pending_state\<lparr>alloc_calls := Suc (alloc_calls event_pending_state)\<rparr> =
            event_pending_state\<lparr>alloc_calls := 1\<rparr>"
    by (simp add: event_pending_state_def initial_state_def)
  from main[THEN conjunct2, THEN conjunct2, THEN conjunct2, THEN conjunct2, THEN conjunct2,
           THEN conjunct2, THEN conjunct2, rule_format, OF h]
  obtain B incF where
    e: "hal_says_data_ready (platform_failing []) DATA_TYPE_EVENT event_pending_state =
          Inr (Buffer_alloc 14 #
                 fst (hand_over DATA_TYPE_EVENT B (event_pending_state\<lparr>alloc_calls := 1\<rparr>)),
               store_context DATA_TYPE_EVENT incF [0x0F]
                 (snd (hand_over DATA_TYPE_EVENT B (event_pending_state\<lparr>alloc_calls := 1\<rparr>))))" and
    l: "len B = of_nat (length [0x0E, 0x04 :: 8 word] + length [0x01, 0x03, 0x0C, 0x00 :: 8 word])"
       "event B = inbound_tag DATA_TYPE_EVENT" and
    d: "\<forall>j<length [0x0E, 0x04 :: 8 word] + length [0x01, 0x03, 0x0C, 0x00 :: 8 word].
          data B j = ([0x0E, 0x04] @ [0x01, 0x03, 0x0C, 0x00]) ! j" and
    c: "state incF = BRAND_NEW" "buffer incF = None"
    unfolding n s1 by blast
  from r e have eff: "eff = Buffer_alloc 14 #
             fst (hand_over DATA_TYPE_EVENT B (event_pending_state\<lparr>alloc_calls := 1\<rparr>))"
    and s': "s' = store_context DATA_TYPE_EVENT incF [0x0F]
                 (snd (hand_over DATA_TYPE_EVENT B (event_pending_state\<lparr>alloc_calls := 1\<rparr>)))"
    by simp_all
  have ctx: "incoming_packets s' (nat (PACKET_TYPE_TO_INBOUND_INDEX DATA_TYPE_EVENT)) = incF"
    unfolding s' by simp
  have dd: "data B 0 = 0x0E \<and> data B 1 = 0x04 \<and> data B 2 = 0x01 \<and> data B 3 = 0x03 \<and>
     data B 4 = 0x0C \<and> data B 5 = 0x00"
    using d[rule_format, of 0] d[rule_format, of 1] d[rule_format, of 2] d[rule_format, of 3]
      d[rule_format, of 4] d[rule_format, of 5] by simp
  have ll: "len B = 6 \<and> event B = MSG_HC_TO_STACK_HCI_EVT"
    using l by (simp add: inbound_tag_def)
  show ?thesis
    apply (rule exI[of _ B], rule exI[of _ eff], rule exI[of _ s'])
    using r eff ll dd f nq b c unfolding ctx by simp
qed

section \<open>The completed preamble\<close>

text \<open>
  C4. An inbound type is given and its context is \<open>BRAND_NEW\<close>; the bytes \<open>ps\<close> of a
  preamble arrive, as many as the type's preamble size; \<open>body\<close> is the number that the
  last two bytes spell in little-endian order for ACL, and the last byte for SCO and for
  events; and the allocation of \<open>BT_HDR_SIZE\<close> plus the preamble size plus \<open>body\<close> bytes
  succeeds. Then the bytes before the last are stored without any effect, and with the
  last byte the state machine requests exactly that allocation, keeps \<open>body\<close> as
  the bytes remaining and the preamble size as index, sets \<open>offset\<close> to 0 and \<open>event\<close>
  to the inbound tag of the type in the buffer, whose data starts with the bytes of the
  preamble, and moves to \<open>BODY\<close> when \<open>body\<close> is positive and to \<open>FINISHED\<close>
  when it is 0.
\<close>

theorem preamble_completed:
  assumes "type \<noteq> DATA_TYPE_COMMAND"
    and "state incoming = BRAND_NEW"
    and "length ps = unat (preamble_sizes ! nat (PACKET_TYPE_TO_INDEX type))"
    and "body = (if type = DATA_TYPE_ACL then unat (ps ! 2) + 256 * unat (ps ! 3) else unat (last ps))"
    and "buffer_allocator_alloc pf (alloc_calls s) (BT_HDR_SIZE pf + length ps + body) = Some b"
  shows "hal_says_data_ready_loop pf type (butlast ps, incoming, s) =
           Inr ([], [], preamble_front type (butlast ps) incoming, s) \<and>
         (\<exists>inc1 b1.
            switch_state pf type (last ps) (rx, preamble_front type (butlast ps) incoming, s) =
              Inr ([Buffer_alloc (BT_HDR_SIZE pf + length ps + body)], rx, inc1,
                   s\<lparr>alloc_calls := Suc (alloc_calls s)\<rparr>) \<and>
            unat (bytes_remaining inc1) = body \<and> unat (index inc1) = length ps \<and>
            state inc1 = (if 0 < body then BODY else FINISHED) \<and>
            buffer inc1 = Some b1 \<and> offset b1 = 0 \<and> event b1 = inbound_tag type \<and>
            (\<forall>i<length ps. data b1 i = ps ! i))"
proof -
  have "preamble_done pf type ps body rx incoming s"
  proof (cases type)
    case DATA_TYPE_COMMAND
    with assms(1) show ?thesis by simp
  next
    case DATA_TYPE_ACL
    with assms(3) have len: "length ps = 4"
      by (simp add: PACKET_TYPE_TO_INDEX_def preamble_sizes_def)
    then obtain a1 a2 l0 l1 where ps: "ps = [a1, a2, l0, l1]" using length_4 by blast
    have bd: "body = unat l0 + 256 * unat l1" using assms(4) ps DATA_TYPE_ACL by simp
    have al: "buffer_allocator_alloc pf (alloc_calls s)
               (BT_HDR_SIZE pf + 4 + (unat l0 + 256 * unat l1)) = Some b"
      using assms(5) len bd by simp
    show ?thesis
      unfolding ps bd DATA_TYPE_ACL by (rule preamble_done_acl[OF assms(2) al])
  next
    case DATA_TYPE_SCO
    with assms(3) have len: "length ps = 3"
      by (simp add: PACKET_TYPE_TO_INDEX_def preamble_sizes_def)
    then obtain a1 a2 l where ps: "ps = [a1, a2, l]" using length_3 by blast
    have bd: "body = unat l" using assms(4) ps DATA_TYPE_SCO by simp
    have al: "buffer_allocator_alloc pf (alloc_calls s) (BT_HDR_SIZE pf + 3 + unat l) = Some b"
      using assms(5) len bd by simp
    show ?thesis
      unfolding ps bd DATA_TYPE_SCO by (rule preamble_done_sco[OF assms(2) al])
  next
    case DATA_TYPE_EVENT
    with assms(3) have len: "length ps = 2"
      by (simp add: PACKET_TYPE_TO_INDEX_def preamble_sizes_def)
    then obtain a l where ps: "ps = [a, l]" using length_2 by blast
    have bd: "body = unat l" using assms(4) ps DATA_TYPE_EVENT by simp
    have al: "buffer_allocator_alloc pf (alloc_calls s) (BT_HDR_SIZE pf + 2 + unat l) = Some b"
      using assms(5) len bd by simp
    show ?thesis
      unfolding ps bd DATA_TYPE_EVENT by (rule preamble_done_event[OF assms(2) al])
  qed
  then show ?thesis unfolding preamble_done_def .
qed

text \<open>
  An event preamble with code 0x0E and parameter length 4: the request is for 8 + 2 + 4
  bytes, and the next state is \<open>BODY\<close>.
\<close>

theorem preamble_completed_witness:
  "hal_says_data_ready_loop (platform_failing []) DATA_TYPE_EVENT
     (butlast [0x0E, 0x04], zeroed_packet_receive_data, initial_state) =
     Inr ([], [], preamble_front DATA_TYPE_EVENT (butlast [0x0E, 0x04]) zeroed_packet_receive_data,
          initial_state) \<and>
   (\<exists>inc1 b1.
      switch_state (platform_failing []) DATA_TYPE_EVENT (last [0x0E, 0x04])
        ([], preamble_front DATA_TYPE_EVENT (butlast [0x0E, 0x04]) zeroed_packet_receive_data,
         initial_state) =
        Inr ([Buffer_alloc (BT_HDR_SIZE (platform_failing []) + length [0x0E, 0x04 :: 8 word] + 4)],
             [], inc1, initial_state\<lparr>alloc_calls := Suc (alloc_calls initial_state)\<rparr>) \<and>
      unat (bytes_remaining inc1) = 4 \<and> unat (index inc1) = length [0x0E, 0x04 :: 8 word] \<and>
      state inc1 = (if 0 < (4 :: nat) then BODY else FINISHED) \<and>
      buffer inc1 = Some b1 \<and> offset b1 = 0 \<and> event b1 = inbound_tag DATA_TYPE_EVENT \<and>
      (\<forall>i<length [0x0E, 0x04 :: 8 word]. data b1 i = [0x0E, 0x04] ! i))"
proof -
  have 1: "DATA_TYPE_EVENT \<noteq> DATA_TYPE_COMMAND" by simp
  have 2: "state zeroed_packet_receive_data = BRAND_NEW"
    by (simp add: zeroed_packet_receive_data_def)
  have 3: "length [0x0E, 0x04 :: 8 word] =
      unat (preamble_sizes ! nat (PACKET_TYPE_TO_INDEX DATA_TYPE_EVENT))"
    by (simp add: preamble_sizes_def PACKET_TYPE_TO_INDEX_def)
  have 4: "(4 :: nat) =
      (if DATA_TYPE_EVENT = DATA_TYPE_ACL
       then unat ([0x0E, 0x04 :: 8 word] ! 2) + 256 * unat ([0x0E, 0x04 :: 8 word] ! 3)
       else unat (last [0x0E, 0x04 :: 8 word]))"
    by simp
  have 5: "buffer_allocator_alloc (platform_failing []) (alloc_calls initial_state)
      (BT_HDR_SIZE (platform_failing []) + length [0x0E, 0x04 :: 8 word] + 4) =
      Some (packet_of (MSG_OTHER 0) [])"
    by (simp add: platform_failing_def)
  show ?thesis by (rule preamble_completed[OF 1 2 3 4 5])
qed

section \<open>The dropped packet\<close>

text \<open>
  C6. An inbound type is given, its context is \<open>BRAND_NEW\<close> and the HAL holds no byte
  for it; the bytes \<open>ps\<close> of a preamble arrive and announce a body as long as \<open>body\<close>;
  the allocation for the packet fails. The bytes arrive in chunks, in any number and of
  any sizes, empty ones included, and after each chunk the HAL calls
  \<open>hal_says_data_ready\<close>. While the preamble is incomplete the calls have no effect and
  store the context in \<open>PREAMBLE\<close>. Once the preamble has arrived the only effects of all
  the calls are the allocation request and the error log, the stored context owns no
  buffer and has the body length as bytes remaining, and it is in \<open>IGNORE\<close>, or in
  \<open>BRAND_NEW\<close> when the body is empty. While fewer bytes than the body has have followed,
  the stored context stays in \<open>IGNORE\<close> and has counted them, with no further effect. Once
  all bytes of the body have arrived, the stored context is \<open>BRAND_NEW\<close> and the HAL is
  empty, and whatever the module does next it does as from that state; the effects up
  to there are the allocation request and the error log, so no packet leaves for the
  dropped packet. When the bytes of the dropped packet and more are in the HAL for one
  call, the call goes on after the dropped packet as a call does on the following bytes
  from \<open>BRAND_NEW\<close>.

  For any stored context: a call that finds the context in \<open>PREAMBLE\<close> with its last
  byte missing, and whose allocation fails, logs the request and the error and goes on
  with the context in \<open>IGNORE\<close>, or in \<open>BRAND_NEW\<close> for an empty body, without a buffer
  and with the body length as bytes remaining; a call that finds the context in
  \<open>IGNORE\<close> and fewer bytes in the HAL than remain drops them, counts them and has no
  effect; a call that finds the context in \<open>IGNORE\<close> and at least the remaining bytes in
  the HAL drops exactly that many and goes on from \<open>BRAND_NEW\<close> with the bytes after
  them.
\<close>

theorem allocation_failure_drains:
  "(type \<noteq> DATA_TYPE_COMMAND \<and>
    state (incoming_packets s (nat (PACKET_TYPE_TO_INBOUND_INDEX type))) = BRAND_NEW \<and>
    hal_rx s type = [] \<and>
    length ps = unat (preamble_sizes ! nat (PACKET_TYPE_TO_INDEX type)) \<and>
    length body =
      (if type = DATA_TYPE_ACL then unat (ps ! 2) + 256 * unat (ps ! 3) else unat (last ps)) \<and>
    buffer_allocator_alloc pf (alloc_calls s) (BT_HDR_SIZE pf + length ps + length body) = None \<longrightarrow>
    (\<exists>inc1.
       buffer inc1 = None \<and> unat (bytes_remaining inc1) = length body \<and>
       state inc1 = (if body = [] then BRAND_NEW else IGNORE) \<and>
       (\<forall>chunks k. 0 < k \<and> k < length ps \<and> concat chunks = take k ps \<longrightarrow>
          run pf (delivery type chunks) s =
            Inr ([], store_context type
                       (preamble_front type (take k ps)
                          (incoming_packets s (nat (PACKET_TYPE_TO_INBOUND_INDEX type)))) [] s)) \<and>
       (\<forall>chunks. concat chunks = ps \<longrightarrow>
          run pf (delivery type chunks) s =
            Inr ([Buffer_alloc (BT_HDR_SIZE pf + length ps + length body),
                  ALOGE ''error getting buffer for incoming packet''],
                 store_context type inc1 [] (s\<lparr>alloc_calls := Suc (alloc_calls s)\<rparr>))) \<and>
       (\<forall>chunks k. k < length body \<and> concat chunks = ps @ take k body \<longrightarrow>
          run pf (delivery type chunks) s =
            Inr ([Buffer_alloc (BT_HDR_SIZE pf + length ps + length body),
                  ALOGE ''error getting buffer for incoming packet''],
                 store_context type
                   (inc1\<lparr>bytes_remaining := bytes_remaining inc1 - of_nat k\<rparr>) []
                   (s\<lparr>alloc_calls := Suc (alloc_calls s)\<rparr>))) \<and>
       (\<forall>chunks ops. concat chunks = ps @ body \<longrightarrow>
          run pf (delivery type chunks @ ops) s =
            prepend_effects
              [Buffer_alloc (BT_HDR_SIZE pf + length ps + length body),
               ALOGE ''error getting buffer for incoming packet'']
              (run pf ops
                 (store_context type (inc1\<lparr>bytes_remaining := 0, state := BRAND_NEW\<rparr>) []
                    (s\<lparr>alloc_calls := Suc (alloc_calls s)\<rparr>)))) \<and>
       (\<forall>extra.
          hal_says_data_ready pf type (s\<lparr>hal_rx := (hal_rx s)(type := ps @ body @ extra)\<rparr>) =
            prepend_effects
              [Buffer_alloc (BT_HDR_SIZE pf + length ps + length body),
               ALOGE ''error getting buffer for incoming packet'']
              (hal_says_data_ready pf type
                 (store_context type (inc1\<lparr>bytes_remaining := 0, state := BRAND_NEW\<rparr>) extra
                    (s\<lparr>alloc_calls := Suc (alloc_calls s)\<rparr>)))))) \<and>
   (\<forall>F l rest.
      type \<noteq> DATA_TYPE_COMMAND \<and>
      incoming_packets s (nat (PACKET_TYPE_TO_INBOUND_INDEX type)) = F \<and>
      state F = PREAMBLE \<and> unat (index F) < 4 \<and> bytes_remaining F = 1 \<and>
      hal_rx s type = l # rest \<and>
      buffer_allocator_alloc pf (alloc_calls s)
        (BT_HDR_SIZE pf + unat (index F + 1) + unat (body_length_of type l F)) = None \<longrightarrow>
      hal_says_data_ready pf type s =
        prepend_effects
          [Buffer_alloc (BT_HDR_SIZE pf + unat (index F + 1) + unat (body_length_of type l F)),
           ALOGE ''error getting buffer for incoming packet'']
          (hal_says_data_ready pf type
             (store_context type
                ((preamble_byte l F)
                   \<lparr>bytes_remaining := body_length_of type l F,
                    buffer := None,
                    state := (if body_length_of type l F = 0 then BRAND_NEW else IGNORE)\<rparr>)
                rest (s\<lparr>alloc_calls := Suc (alloc_calls s)\<rparr>)))) \<and>
   (type \<noteq> DATA_TYPE_COMMAND \<and>
    state (incoming_packets s (nat (PACKET_TYPE_TO_INBOUND_INDEX type))) = IGNORE \<and>
    length (hal_rx s type) <
      unat (bytes_remaining (incoming_packets s (nat (PACKET_TYPE_TO_INBOUND_INDEX type)))) \<longrightarrow>
    hal_says_data_ready pf type s =
      Inr ([], store_context type
                 ((incoming_packets s (nat (PACKET_TYPE_TO_INBOUND_INDEX type)))
                    \<lparr>bytes_remaining :=
                       bytes_remaining (incoming_packets s (nat (PACKET_TYPE_TO_INBOUND_INDEX type))) -
                       of_nat (length (hal_rx s type))\<rparr>) [] s)) \<and>
   (\<forall>bs extra.
      type \<noteq> DATA_TYPE_COMMAND \<and>
      state (incoming_packets s (nat (PACKET_TYPE_TO_INBOUND_INDEX type))) = IGNORE \<and>
      hal_rx s type = bs @ extra \<and> bs \<noteq> [] \<and>
      unat (bytes_remaining (incoming_packets s (nat (PACKET_TYPE_TO_INBOUND_INDEX type)))) =
        length bs \<longrightarrow>
      hal_says_data_ready pf type s =
        hal_says_data_ready pf type
          (store_context type
             ((incoming_packets s (nat (PACKET_TYPE_TO_INBOUND_INDEX type)))
                \<lparr>bytes_remaining := 0, state := BRAND_NEW\<rparr>) extra s))"
proof (intro conjI)
  show "type \<noteq> DATA_TYPE_COMMAND \<and>
    state (incoming_packets s (nat (PACKET_TYPE_TO_INBOUND_INDEX type))) = BRAND_NEW \<and>
    hal_rx s type = [] \<and>
    length ps = unat (preamble_sizes ! nat (PACKET_TYPE_TO_INDEX type)) \<and>
    length body =
      (if type = DATA_TYPE_ACL then unat (ps ! 2) + 256 * unat (ps ! 3) else unat (last ps)) \<and>
    buffer_allocator_alloc pf (alloc_calls s) (BT_HDR_SIZE pf + length ps + length body) = None \<longrightarrow>
    (\<exists>inc1.
       buffer inc1 = None \<and> unat (bytes_remaining inc1) = length body \<and>
       state inc1 = (if body = [] then BRAND_NEW else IGNORE) \<and>
       (\<forall>chunks k. 0 < k \<and> k < length ps \<and> concat chunks = take k ps \<longrightarrow>
          run pf (delivery type chunks) s =
            Inr ([], store_context type
                       (preamble_front type (take k ps)
                          (incoming_packets s (nat (PACKET_TYPE_TO_INBOUND_INDEX type)))) [] s)) \<and>
       (\<forall>chunks. concat chunks = ps \<longrightarrow>
          run pf (delivery type chunks) s =
            Inr ([Buffer_alloc (BT_HDR_SIZE pf + length ps + length body),
                  ALOGE ''error getting buffer for incoming packet''],
                 store_context type inc1 [] (s\<lparr>alloc_calls := Suc (alloc_calls s)\<rparr>))) \<and>
       (\<forall>chunks k. k < length body \<and> concat chunks = ps @ take k body \<longrightarrow>
          run pf (delivery type chunks) s =
            Inr ([Buffer_alloc (BT_HDR_SIZE pf + length ps + length body),
                  ALOGE ''error getting buffer for incoming packet''],
                 store_context type
                   (inc1\<lparr>bytes_remaining := bytes_remaining inc1 - of_nat k\<rparr>) []
                   (s\<lparr>alloc_calls := Suc (alloc_calls s)\<rparr>))) \<and>
       (\<forall>chunks ops. concat chunks = ps @ body \<longrightarrow>
          run pf (delivery type chunks @ ops) s =
            prepend_effects
              [Buffer_alloc (BT_HDR_SIZE pf + length ps + length body),
               ALOGE ''error getting buffer for incoming packet'']
              (run pf ops
                 (store_context type (inc1\<lparr>bytes_remaining := 0, state := BRAND_NEW\<rparr>) []
                    (s\<lparr>alloc_calls := Suc (alloc_calls s)\<rparr>)))) \<and>
       (\<forall>extra.
          hal_says_data_ready pf type (s\<lparr>hal_rx := (hal_rx s)(type := ps @ body @ extra)\<rparr>) =
            prepend_effects
              [Buffer_alloc (BT_HDR_SIZE pf + length ps + length body),
               ALOGE ''error getting buffer for incoming packet'']
              (hal_says_data_ready pf type
                 (store_context type (inc1\<lparr>bytes_remaining := 0, state := BRAND_NEW\<rparr>) extra
                    (s\<lparr>alloc_calls := Suc (alloc_calls s)\<rparr>)))))"
    (is "?A \<longrightarrow> ?C")
  proof (rule impI)
    assume asm: "?A"
    define inc0 where "inc0 = incoming_packets s (nat (PACKET_TYPE_TO_INBOUND_INDEX type))"
    define s1 where "s1 = s\<lparr>alloc_calls := Suc (alloc_calls s)\<rparr>"
    define E where "E = [Buffer_alloc (BT_HDR_SIZE pf + length ps + length body),
                         ALOGE ''error getting buffer for incoming packet'']"
    from asm have t: "type \<noteq> DATA_TYPE_COMMAND"
      and bn: "state (incoming_packets s (nat (PACKET_TYPE_TO_INBOUND_INDEX type))) = BRAND_NEW"
      and e: "hal_rx s type = []"
      and lp: "length ps = unat (preamble_sizes ! nat (PACKET_TYPE_TO_INDEX type))"
      and lb: "length body =
        (if type = DATA_TYPE_ACL then unat (ps ! 2) + 256 * unat (ps ! 3) else unat (last ps))"
      and al: "buffer_allocator_alloc pf (alloc_calls s)
                 (BT_HDR_SIZE pf + length ps + length body) = None"
      by blast+
    have bn0: "state inc0 = BRAND_NEW" using bn by (simp add: inc0_def)
    note af = alloc_failed_any[OF t bn0 lp lb al]
    from af obtain inc1 where
      a: "hal_says_data_ready_loop pf type (ps, inc0, s) = Inr (E, [], inc1, s1)" and
      p: "buffer inc1 = None" "unat (bytes_remaining inc1) = length body"
         "state inc1 = (if body = [] then BRAND_NEW else IGNORE)" and
      b: "\<forall>k<length body.
           hal_says_data_ready_loop pf type (ps @ take k body, inc0, s) =
             Inr (E, [], inc1\<lparr>bytes_remaining := bytes_remaining inc1 - of_nat k\<rparr>, s1)" and
      c: "\<forall>extra.
           hal_says_data_ready_loop pf type (ps @ body @ extra, inc0, s) =
             (case hal_says_data_ready_loop pf type
                     (extra, inc1\<lparr>bytes_remaining := 0, state := BRAND_NEW\<rparr>, s1) of
                Inl e \<Rightarrow> Inl e
              | Inr (eff, st) \<Rightarrow> Inr (E @ eff, st))"
      unfolding alloc_failed_def E_def s1_def by blast
    have c': "hal_says_data_ready_loop pf type (ps @ body @ extra, inc0, s) =
                prepend_effects E
                  (hal_says_data_ready_loop pf type
                     (extra, inc1\<lparr>bytes_remaining := 0, state := BRAND_NEW\<rparr>, s1))" for extra
      using c[rule_format, of extra] by (simp only: prepend_effects_def)
    have s_eq: "store_context type inc0 [] s = s"
      by (rule store_context_same) (simp_all add: inc0_def e)
    have dl: "run pf (delivery type chunks) s =
                store_result type (hal_says_data_ready_loop pf type (concat chunks, inc0, s))"
      if "concat chunks = take m (ps @ body)" for chunks m
      using delivery_dropped[OF t bn0 lp af that] by (simp only: s_eq)
    have g1: "run pf (delivery type chunks) s =
                Inr ([], store_context type (preamble_front type (take k ps) inc0) [] s)"
      if k: "0 < k \<and> k < length ps \<and> concat chunks = take k ps" for chunks k
    proof -
      from k have cc: "concat chunks = take k (ps @ body)" by simp
      from k have ne: "take k ps \<noteq> []" by (cases ps) auto
      have lt: "length (take k ps) < unat (preamble_sizes ! nat (PACKET_TYPE_TO_INDEX type))"
        using k lp by simp
      from loop_front_partial[OF t bn0 ne lt, of pf s]
      have "hal_says_data_ready_loop pf type (concat chunks, inc0, s) =
              Inr ([], [], preamble_front type (take k ps) inc0, s)"
        using k by simp
      then show ?thesis by (simp only: dl[OF cc]) (simp add: store_result_def)
    qed
    have g2: "run pf (delivery type chunks) s = Inr (E, store_context type inc1 [] s1)"
      if k: "concat chunks = ps" for chunks
    proof -
      from k have cc: "concat chunks = take (length ps) (ps @ body)" by simp
      show ?thesis by (simp only: dl[OF cc]) (simp add: k a store_result_def)
    qed
    have g3: "run pf (delivery type chunks) s =
                Inr (E, store_context type
                          (inc1\<lparr>bytes_remaining := bytes_remaining inc1 - of_nat k\<rparr>) [] s1)"
      if k: "k < length body \<and> concat chunks = ps @ take k body" for chunks k
    proof -
      from k have cc: "concat chunks = take (length ps + k) (ps @ body)" by simp
      from k b have "hal_says_data_ready_loop pf type (concat chunks, inc0, s) =
             Inr (E, [], inc1\<lparr>bytes_remaining := bytes_remaining inc1 - of_nat k\<rparr>, s1)"
        by simp
      then show ?thesis by (simp only: dl[OF cc]) (simp add: store_result_def)
    qed
    have g4: "run pf (delivery type chunks @ ops) s =
                prepend_effects E
                  (run pf ops
                     (store_context type (inc1\<lparr>bytes_remaining := 0, state := BRAND_NEW\<rparr>) [] s1))"
      if k: "concat chunks = ps @ body" for chunks ops
    proof -
      from k have cc: "concat chunks = take (length ps + length body) (ps @ body)" by simp
      have "hal_says_data_ready_loop pf type (concat chunks, inc0, s) =
              Inr (E, [], inc1\<lparr>bytes_remaining := 0, state := BRAND_NEW\<rparr>, s1)"
        using c'[of "[]"] k by simp
      then have "run pf (delivery type chunks) s =
              Inr (E, store_context type (inc1\<lparr>bytes_remaining := 0, state := BRAND_NEW\<rparr>) [] s1)"
        by (simp only: dl[OF cc]) (simp add: store_result_def)
      then show ?thesis by (simp add: run_append)
    qed
    have g5: "hal_says_data_ready pf type (s\<lparr>hal_rx := (hal_rx s)(type := ps @ body @ extra)\<rparr>) =
                prepend_effects E
                  (hal_says_data_ready pf type
                     (store_context type (inc1\<lparr>bytes_remaining := 0, state := BRAND_NEW\<rparr>) extra s1))"
      for extra
    proof -
      have "s\<lparr>hal_rx := (hal_rx s)(type := ps @ body @ extra)\<rparr> =
              store_context type inc0 (ps @ body @ extra) s"
        by (simp add: store_context_def inc0_def)
      then show ?thesis
        by (simp only: call_stored[OF t] c' store_result_prepend)
    qed
    show "?C"
      unfolding E_def[symmetric] s1_def[symmetric] inc0_def[symmetric]
      apply (rule exI[of _ inc1])
      using p g1 g2 g3 g4 g5 by blast
  qed
next
  show "\<forall>F l rest.
      type \<noteq> DATA_TYPE_COMMAND \<and>
      incoming_packets s (nat (PACKET_TYPE_TO_INBOUND_INDEX type)) = F \<and>
      state F = PREAMBLE \<and> unat (index F) < 4 \<and> bytes_remaining F = 1 \<and>
      hal_rx s type = l # rest \<and>
      buffer_allocator_alloc pf (alloc_calls s)
        (BT_HDR_SIZE pf + unat (index F + 1) + unat (body_length_of type l F)) = None \<longrightarrow>
      hal_says_data_ready pf type s =
        prepend_effects
          [Buffer_alloc (BT_HDR_SIZE pf + unat (index F + 1) + unat (body_length_of type l F)),
           ALOGE ''error getting buffer for incoming packet'']
          (hal_says_data_ready pf type
             (store_context type
                ((preamble_byte l F)
                   \<lparr>bytes_remaining := body_length_of type l F,
                    buffer := None,
                    state := (if body_length_of type l F = 0 then BRAND_NEW else IGNORE)\<rparr>)
                rest (s\<lparr>alloc_calls := Suc (alloc_calls s)\<rparr>)))"
    by (intro allI impI, elim conjE) (rule call_preamble_alloc_fails)
next
  show "type \<noteq> DATA_TYPE_COMMAND \<and>
    state (incoming_packets s (nat (PACKET_TYPE_TO_INBOUND_INDEX type))) = IGNORE \<and>
    length (hal_rx s type) <
      unat (bytes_remaining (incoming_packets s (nat (PACKET_TYPE_TO_INBOUND_INDEX type)))) \<longrightarrow>
    hal_says_data_ready pf type s =
      Inr ([], store_context type
                 ((incoming_packets s (nat (PACKET_TYPE_TO_INBOUND_INDEX type)))
                    \<lparr>bytes_remaining :=
                       bytes_remaining (incoming_packets s (nat (PACKET_TYPE_TO_INBOUND_INDEX type))) -
                       of_nat (length (hal_rx s type))\<rparr>) [] s)"
    by (intro allI impI, elim conjE) (rule call_ignore_partial)
next
  show "\<forall>bs extra.
      type \<noteq> DATA_TYPE_COMMAND \<and>
      state (incoming_packets s (nat (PACKET_TYPE_TO_INBOUND_INDEX type))) = IGNORE \<and>
      hal_rx s type = bs @ extra \<and> bs \<noteq> [] \<and>
      unat (bytes_remaining (incoming_packets s (nat (PACKET_TYPE_TO_INBOUND_INDEX type)))) =
        length bs \<longrightarrow>
      hal_says_data_ready pf type s =
        hal_says_data_ready pf type
          (store_context type
             ((incoming_packets s (nat (PACKET_TYPE_TO_INBOUND_INDEX type)))
                \<lparr>bytes_remaining := 0, state := BRAND_NEW\<rparr>) extra s)"
    by (intro allI impI, elim conjE) (rule call_ignore_drains)
qed

text \<open>
  The first allocation fails for an event with three parameter bytes. The bytes arrive in
  the chunks 3E, then 03 01: after the two calls the stored context is in \<open>IGNORE\<close> and
  has counted one of the three bytes. With the third chunk 02 03 the stored context is
  \<open>BRAND_NEW\<close>, and the effects of the three calls are those of the failed allocation.
\<close>

theorem allocation_failure_drains_witness:
  "\<exists>inc1.
     buffer inc1 = None \<and> unat (bytes_remaining inc1) = 3 \<and> state inc1 = IGNORE \<and>
     run (platform_failing [0]) (delivery DATA_TYPE_EVENT [[0x3E], [0x03, 0x01]]) initial_state =
       Inr ([Buffer_alloc 13, ALOGE ''error getting buffer for incoming packet''],
            store_context DATA_TYPE_EVENT
              (inc1\<lparr>bytes_remaining := bytes_remaining inc1 - 1\<rparr>) []
              (initial_state\<lparr>alloc_calls := 1\<rparr>)) \<and>
     run (platform_failing [0])
         (delivery DATA_TYPE_EVENT [[0x3E], [0x03, 0x01], [0x02, 0x03]]) initial_state =
       Inr ([Buffer_alloc 13, ALOGE ''error getting buffer for incoming packet''],
            store_context DATA_TYPE_EVENT
              (inc1\<lparr>bytes_remaining := 0, state := BRAND_NEW\<rparr>) []
              (initial_state\<lparr>alloc_calls := 1\<rparr>))"
proof -
  have h: "DATA_TYPE_EVENT \<noteq> DATA_TYPE_COMMAND \<and>
    state (incoming_packets initial_state (nat (PACKET_TYPE_TO_INBOUND_INDEX DATA_TYPE_EVENT))) =
      BRAND_NEW \<and>
    hal_rx initial_state DATA_TYPE_EVENT = [] \<and>
    length [0x3E, 0x03 :: 8 word] =
      unat (preamble_sizes ! nat (PACKET_TYPE_TO_INDEX DATA_TYPE_EVENT)) \<and>
    length [0x01, 0x02, 0x03 :: 8 word] =
      (if DATA_TYPE_EVENT = DATA_TYPE_ACL
       then unat ([0x3E, 0x03 :: 8 word] ! 2) + 256 * unat ([0x3E, 0x03 :: 8 word] ! 3)
       else unat (last [0x3E, 0x03 :: 8 word])) \<and>
    buffer_allocator_alloc (platform_failing [0]) (alloc_calls initial_state)
      (BT_HDR_SIZE (platform_failing [0]) + length [0x3E, 0x03 :: 8 word] +
       length [0x01, 0x02, 0x03 :: 8 word]) = None"
    by (simp add: initial_state_def zeroed_packet_receive_data_def preamble_sizes_def
          PACKET_TYPE_TO_INDEX_def platform_failing_def)
  have n: "BT_HDR_SIZE (platform_failing [0]) + length [0x3E, 0x03 :: 8 word] +
             length [0x01, 0x02, 0x03 :: 8 word] = 13"
    by (simp add: platform_failing_def)
  have s1: "initial_state\<lparr>alloc_calls := Suc (alloc_calls initial_state)\<rparr> =
            initial_state\<lparr>alloc_calls := 1\<rparr>"
    by (simp add: initial_state_def)
  from allocation_failure_drains
         [of DATA_TYPE_EVENT initial_state "[0x3E, 0x03]" "[0x01, 0x02, 0x03]"
             "platform_failing [0]", THEN conjunct1, rule_format, OF h]
  obtain inc1 where
    p: "buffer inc1 = None" "unat (bytes_remaining inc1) = length [0x01, 0x02, 0x03 :: 8 word]"
       "state inc1 = (if [0x01, 0x02, 0x03 :: 8 word] = [] then BRAND_NEW else IGNORE)" and
    g3: "\<And>chunks k. k < length [0x01, 0x02, 0x03 :: 8 word] \<and>
           concat chunks = [0x3E, 0x03] @ take k [0x01, 0x02, 0x03 :: 8 word] \<Longrightarrow>
          run (platform_failing [0]) (delivery DATA_TYPE_EVENT chunks) initial_state =
            Inr ([Buffer_alloc (BT_HDR_SIZE (platform_failing [0]) + length [0x3E, 0x03 :: 8 word] +
                    length [0x01, 0x02, 0x03 :: 8 word]),
                  ALOGE ''error getting buffer for incoming packet''],
                 store_context DATA_TYPE_EVENT
                   (inc1\<lparr>bytes_remaining := bytes_remaining inc1 - of_nat k\<rparr>) []
                   (initial_state\<lparr>alloc_calls := Suc (alloc_calls initial_state)\<rparr>))" and
    g4: "\<And>chunks ops. concat chunks = [0x3E, 0x03] @ [0x01, 0x02, 0x03 :: 8 word] \<Longrightarrow>
          run (platform_failing [0]) (delivery DATA_TYPE_EVENT chunks @ ops) initial_state =
            prepend_effects
              [Buffer_alloc (BT_HDR_SIZE (platform_failing [0]) + length [0x3E, 0x03 :: 8 word] +
                    length [0x01, 0x02, 0x03 :: 8 word]),
               ALOGE ''error getting buffer for incoming packet'']
              (run (platform_failing [0]) ops
                 (store_context DATA_TYPE_EVENT
                    (inc1\<lparr>bytes_remaining := 0, state := BRAND_NEW\<rparr>) []
                    (initial_state\<lparr>alloc_calls := Suc (alloc_calls initial_state)\<rparr>)))"
    by blast
  have a: "run (platform_failing [0]) (delivery DATA_TYPE_EVENT [[0x3E], [0x03, 0x01]])
             initial_state =
       Inr ([Buffer_alloc 13, ALOGE ''error getting buffer for incoming packet''],
            store_context DATA_TYPE_EVENT
              (inc1\<lparr>bytes_remaining := bytes_remaining inc1 - 1\<rparr>) []
              (initial_state\<lparr>alloc_calls := 1\<rparr>))"
    using g3[of 1 "[[0x3E], [0x03, 0x01]]"] unfolding n s1 by simp
  have b: "run (platform_failing [0])
         (delivery DATA_TYPE_EVENT [[0x3E], [0x03, 0x01], [0x02, 0x03]]) initial_state =
       Inr ([Buffer_alloc 13, ALOGE ''error getting buffer for incoming packet''],
            store_context DATA_TYPE_EVENT
              (inc1\<lparr>bytes_remaining := 0, state := BRAND_NEW\<rparr>) []
              (initial_state\<lparr>alloc_calls := 1\<rparr>))"
    using g4[of "[[0x3E], [0x03, 0x01], [0x02, 0x03]]" "[]"] unfolding n s1 by simp
  from p a b show ?thesis by auto
qed

section \<open>The credit counter\<close>

text \<open>
  C3. The static initialiser and \<open>start_up\<close> set the command credits to 1. The event
  filter replaces the credits by the credit byte of a command-complete or command-status
  event and leaves them alone for any other event. An operation of the module that
  returns leaves the credits as they were, unless it is \<open>start_up\<close>, which sets them to 1,
  or the command-ready handler with a positive credit count, which takes one off, or the
  reassembly of an event that is a command-complete or a command-status event, whose
  credit byte replaces them. So credits that are not negative stay so with every operation,
  and along every run of operations.
\<close>

theorem command_credits_discipline:
  "command_credits initial_state = 1 \<and>
   command_credits (snd (snd (start_up r s0))) = 1 \<and>
   command_credits (snd (snd (filter_incoming_event packet s))) =
     (if data packet 0 = 0x0E then uint (data packet 2)
      else if data packet 0 = 0x0F then uint (data packet 3)
      else command_credits s) \<and>
   (\<forall>eff s'. step pf op s = Inr (eff, s') \<longrightarrow>
      (command_credits s' = command_credits s \<or>
       (\<exists>r. op = Op_start_up r \<and> command_credits s' = 1) \<or>
       (op = Op_event_command_ready \<and> 0 < command_credits s \<and>
          command_credits s' = command_credits s - 1) \<or>
       (op = Op_hal_says_data_ready DATA_TYPE_EVENT \<and>
          credits_replaced eff (command_credits s'))) \<and>
      (0 \<le> command_credits s \<longrightarrow> 0 \<le> command_credits s')) \<and>
   (\<forall>eff s'. 0 \<le> command_credits s \<and> run pf ops s = Inr (eff, s') \<longrightarrow>
      0 \<le> command_credits s')"
proof -
  have f: "command_credits (snd (snd (filter_incoming_event packet s))) =
     (if data packet 0 = 0x0E then uint (data packet 2)
      else if data packet 0 = 0x0F then uint (data packet 3)
      else command_credits s)"
    by (rule filter_incoming_event_credits[of packet s "fst (filter_incoming_event packet s)"
          "fst (snd (filter_incoming_event packet s))"]) simp
  have st: "\<forall>eff s'. step pf op s = Inr (eff, s') \<longrightarrow>
      (command_credits s' = command_credits s \<or>
       (\<exists>r. op = Op_start_up r \<and> command_credits s' = 1) \<or>
       (op = Op_event_command_ready \<and> 0 < command_credits s \<and>
          command_credits s' = command_credits s - 1) \<or>
       (op = Op_hal_says_data_ready DATA_TYPE_EVENT \<and>
          credits_replaced eff (command_credits s'))) \<and>
      (0 \<le> command_credits s \<longrightarrow> 0 \<le> command_credits s')"
    using step_credits[of pf op s] step_credits_nonneg[of s pf op] by blast
  have rn: "\<forall>eff s'. 0 \<le> command_credits s \<and> run pf ops s = Inr (eff, s') \<longrightarrow>
      0 \<le> command_credits s'"
    using run_credits_nonneg[of s pf ops] by blast
  have i: "command_credits initial_state = 1" by (simp add: initial_state_def)
  from i start_up_credits[of r s0] f st rn show ?thesis by blast
qed

lemma credits_example_run:
  "\<exists>eff s'.
     run (platform_failing [])
       [Op_start_up all_created,
        Op_transmit_command True (packet_of (MSG_OTHER 0) [0x03, 0x0C, 0x00]) (Some 7) None 0,
        Op_event_command_ready]
       initial_state = Inr (eff, s') \<and>
     command_credits s' = 0 \<and> command_queue s' = [] \<and>
     map (map_option opcode) (commands_pending_response s') = [Some 0x0C03]"
  by (simp add: initial_state_def all_created_def start_up_def Let_def transmit_command_def
        event_command_ready_def restart_command_timeout_alarm_def STREAM_TO_UINT16_def
        packet_of_def bytes_of_def)

text \<open>
  The module starts, a reset command is admitted and dispatched: the credits go from 1 to 0.
\<close>

theorem command_credits_discipline_witness:
  "\<exists>eff s'.
     run (platform_failing [])
       [Op_start_up all_created,
        Op_transmit_command True (packet_of (MSG_OTHER 0) [0x03, 0x0C, 0x00]) (Some 7) None 0,
        Op_event_command_ready]
       initial_state = Inr (eff, s') \<and>
     command_credits initial_state = 1 \<and>
     command_credits s' = 0 \<and> 0 \<le> command_credits s'"
proof -
  from credits_example_run obtain eff s' where
    r: "run (platform_failing [])
       [Op_start_up all_created,
        Op_transmit_command True (packet_of (MSG_OTHER 0) [0x03, 0x0C, 0x00]) (Some 7) None 0,
        Op_event_command_ready]
       initial_state = Inr (eff, s')" and c: "command_credits s' = 0"
    by blast
  from command_credits_discipline
         [of all_created initial_state "packet_of (MSG_OTHER 0) []" initial_state
             "platform_failing []" Op_shut_down
             "[Op_start_up all_created,
               Op_transmit_command True (packet_of (MSG_OTHER 0) [0x03, 0x0C, 0x00]) (Some 7) None 0,
               Op_event_command_ready]"]
  have i: "command_credits initial_state = 1" and
    n: "\<forall>eff s'. 0 \<le> command_credits initial_state \<and>
          run (platform_failing [])
            [Op_start_up all_created,
             Op_transmit_command True (packet_of (MSG_OTHER 0) [0x03, 0x0C, 0x00]) (Some 7) None 0,
             Op_event_command_ready]
            initial_state = Inr (eff, s') \<longrightarrow> 0 \<le> command_credits s'"
    by blast+
  from n r i have "0 \<le> command_credits s'" by simp
  with r i c show ?thesis by blast
qed

end
